theory Spec2Isabelle
  imports Complex_Main "HOL-Library.Multiset"
begin

section \<open>Arrays in a store\<close>

text \<open>
  A TypeScript array is an object: two variables may name the same array, and
  \<^verbatim>\<open>push\<close>, \<open>splice\<close>, \<open>sort\<close> and an indexed assignment change it for both.
  The store holds every array that has been created, a reference is the position of
  an array in the store, and a new array is always put at the end. An entity is a
  value of the type \<open>'a\<close>: for an object, the reference to it.
\<close>

type_synonym ref = nat

type_synonym 'a store = "'a list list"

definition valid :: "'a store \<Rightarrow> ref \<Rightarrow> bool" where
  "valid h r = (r < length h)"

definition alloc :: "'a list \<Rightarrow> 'a store \<Rightarrow> ref \<times> 'a store" where
  "alloc xs h = (length h, h @ [xs])"

definition get_arr :: "'a store \<Rightarrow> ref \<Rightarrow> 'a list" where
  "get_arr h r = h ! r"

definition set_arr :: "ref \<Rightarrow> 'a list \<Rightarrow> 'a store \<Rightarrow> 'a store" where
  "set_arr r xs h = h[r := xs]"

subsection \<open>The array methods the library calls\<close>

text \<open>
  \<open>Array.prototype.findIndex\<close>: the index of the first element the callback accepts,
  \<open>-1\<close> when there is none.
\<close>

fun findIndex :: "('a \<Rightarrow> bool) \<Rightarrow> 'a list \<Rightarrow> int" where
  "findIndex p [] = - 1"
| "findIndex p (x # xs) =
     (if p x then 0 else (let i = findIndex p xs in if i = - 1 then - 1 else i + 1))"

text \<open>
  \<open>Array.prototype.slice(start, end)\<close> and \<open>Array.prototype.splice(start, deleteCount)\<close>,
  with the clamping of both arguments that ECMAScript prescribes: a negative index counts
  from the end, an index past the end is the length.
\<close>

definition relative_index :: "int \<Rightarrow> int \<Rightarrow> int" where
  "relative_index len i = (if i < 0 then max (len + i) 0 else min i len)"

definition array_slice :: "'a list \<Rightarrow> int \<Rightarrow> int \<Rightarrow> 'a list" where
  "array_slice xs start end =
     (let len = int (length xs);
          k = relative_index len start;
          final = relative_index len end
      in take (nat (final - k)) (drop (nat k) xs))"

definition array_splice :: "'a list \<Rightarrow> int \<Rightarrow> int \<Rightarrow> 'a list" where
  "array_splice xs start deleteCount =
     (let len = int (length xs);
          k = relative_index len start;
          d = min (max deleteCount 0) (len - k)
      in take (nat k) xs @ drop (nat (k + d)) xs)"

text \<open>
  \<open>Array.prototype.sort(comparefn)\<close>. An element of an array is a value or
  \<open>undefined\<close>, written \<open>None\<close>. ECMAScript compares two elements by
  \<open>CompareArrayElements\<close>: \<open>undefined\<close> comes after every value and the comparator
  is called on two values only. From the 2019 edition on the sort is stable, which
  fixes its result for every consistent comparator; it is modelled by the stable
  insertion sort, where an element goes before the first element that the comparison
  does not put before it.
\<close>

fun sort_insert :: "('a \<Rightarrow> 'a \<Rightarrow> int) \<Rightarrow> 'a \<Rightarrow> 'a list \<Rightarrow> 'a list" where
  "sort_insert cmp x [] = [x]"
| "sort_insert cmp x (y # ys) =
     (if cmp x y \<le> 0 then x # y # ys else y # sort_insert cmp x ys)"

fun stable_sort :: "('a \<Rightarrow> 'a \<Rightarrow> int) \<Rightarrow> 'a list \<Rightarrow> 'a list" where
  "stable_sort cmp [] = []"
| "stable_sort cmp (x # xs) = sort_insert cmp x (stable_sort cmp xs)"

definition CompareArrayElements ::
  "('a option \<Rightarrow> 'a option \<Rightarrow> int) \<Rightarrow> 'a option \<Rightarrow> 'a option \<Rightarrow> int" where
  "CompareArrayElements comparefn x y =
     (case x of
        None \<Rightarrow> (case y of None \<Rightarrow> 0 | Some v \<Rightarrow> 1)
      | Some u \<Rightarrow> (case y of None \<Rightarrow> - 1 | Some v \<Rightarrow> comparefn x y))"

definition array_sort ::
  "('a option \<Rightarrow> 'a option \<Rightarrow> int) \<Rightarrow> 'a option list \<Rightarrow> 'a option list" where
  "array_sort comparefn xs = stable_sort (CompareArrayElements comparefn) xs"

text \<open>\<open>Math.ceil(a / b)\<close> on two integers.\<close>

definition ceil_quotient :: "int \<Rightarrow> int \<Rightarrow> int" where
  "ceil_quotient a b = \<lceil>real_of_int a / real_of_int b\<rceil>"

section \<open>types/query.ts\<close>

type_synonym 'a Predicate = "'a \<Rightarrow> bool"

record PageResult =
  items :: ref
  page :: int
  pageSize :: int
  totalItems :: int
  totalPages :: int
  hasNext :: bool
  hasPrev :: bool

text \<open>
  \<open>QueryOptions<T>\<close> extends \<open>Partial<PageRequest>\<close>: every field may be absent.
  Page numbers and sizes are integers.
\<close>

record 'a QueryOptions =
  page :: "int option"
  pageSize :: "int option"
  predicate :: "'a Predicate option"
  filters :: "'a Predicate list option"
  sortBy :: "('a \<Rightarrow> 'a \<Rightarrow> int) option"

section \<open>utils/query-utils.ts\<close>

text \<open>
  \<open>applyFunctionalFilters\<close>: \<open>items.filter\<close> creates a new array; with a comparator,
  the spread creates a second one and \<open>sort\<close> sorts that one in place. The type \<open>T\<close>
  is not constrained, so an element may be \<open>undefined\<close>: the arrays hold values of
  the type \<open>'a option\<close>.
\<close>

definition applyFunctionalFilters ::
  "ref \<Rightarrow> 'a option QueryOptions option \<Rightarrow> 'a option store
     \<Rightarrow> ref \<times> 'a option store" where
  "applyFunctionalFilters items' options h =
     (let predicate' = (case options of None \<Rightarrow> None | Some opts \<Rightarrow> predicate opts);
          filters' = (case options of None \<Rightarrow> []
                      | Some opts \<Rightarrow> (case filters opts of None \<Rightarrow> [] | Some fs \<Rightarrow> fs));
          sortBy' = (case options of None \<Rightarrow> None | Some opts \<Rightarrow> sortBy opts);
          (filtered, h1) =
             alloc (filter (\<lambda>entity.
                       let mainOk = (case predicate' of Some p \<Rightarrow> p entity | None \<Rightarrow> True)
                       in if \<not> mainOk then False else list_all (\<lambda>f. f entity) filters')
                    (get_arr h items')) h
      in case sortBy' of
           None \<Rightarrow> (filtered, h1)
         | Some cmp \<Rightarrow>
             (let (copy, h2) = alloc (get_arr h1 filtered) h1
              in (copy, set_arr copy (array_sort cmp (get_arr h2 copy)) h2)))"

definition paginate :: "ref \<Rightarrow> int \<Rightarrow> int \<Rightarrow> 'a store \<Rightarrow> PageResult \<times> 'a store" where
  "paginate items' page' pageSize' h =
     (let safePage = max 1 page';
          safeSize = max 1 pageSize';
          totalItems' = int (length (get_arr h items'));
          totalPages' = max 1 (ceil_quotient totalItems' safeSize);
          realPage = min safePage totalPages';
          start = (realPage - 1) * safeSize;
          end = start + safeSize;
          (sliced, h1) = alloc (array_slice (get_arr h items') start end) h
      in (\<lparr> items = sliced,
             page = realPage,
             pageSize = safeSize,
             totalItems = totalItems',
             totalPages = totalPages',
             hasNext = realPage < totalPages',
             hasPrev = realPage > 1 \<rparr>, h1))"

section \<open>strategies/in-memory.strategy.ts\<close>

text \<open>
  The class holds one field, the reference to its array. \<open>add\<close>, \<open>remove\<close> and
  \<open>update\<close> change that array in the store and leave the field alone; only \<open>clear\<close>
  assigns the field. The parameter \<open>equalsFn\<close> has the default \<open>Object.is\<close>, the
  identity of two values: a call that leaves it out is a call with \<open>Object_is\<close>.
\<close>

definition Object_is :: "'a \<Rightarrow> 'a \<Rightarrow> bool" where
  "Object_is a b = (a = b)"

record InMemoryEntityStrategy =
  entities :: ref

definition InMemory_new :: "'a store \<Rightarrow> InMemoryEntityStrategy \<times> 'a store" where
  "InMemory_new h = (let (r, h1) = alloc [] h in (\<lparr> entities = r \<rparr>, h1))"

definition InMemory_add :: "InMemoryEntityStrategy \<Rightarrow> 'a \<Rightarrow> 'a store \<Rightarrow> 'a store" where
  "InMemory_add this entity h =
     set_arr (entities this) (get_arr h (entities this) @ [entity]) h"

definition InMemory_remove ::
  "InMemoryEntityStrategy \<Rightarrow> 'a \<Rightarrow> ('a \<Rightarrow> 'a \<Rightarrow> bool) \<Rightarrow> 'a store \<Rightarrow> bool \<times> 'a store" where
  "InMemory_remove this entity equalsFn h =
     (let index = findIndex (\<lambda>e. equalsFn e entity) (get_arr h (entities this))
      in if index = - 1 then (False, h)
         else (True, set_arr (entities this)
                       (array_splice (get_arr h (entities this)) index 1) h))"

definition InMemory_getAll :: "InMemoryEntityStrategy \<Rightarrow> 'a store \<Rightarrow> ref \<times> 'a store" where
  "InMemory_getAll this h = alloc (get_arr h (entities this)) h"

text \<open>
  The assignment \<open>this.entities[index] = newEntity\<close> is reached only with the index
  that \<open>findIndex\<close> found, which is a position of the array.
\<close>

definition InMemory_update ::
  "InMemoryEntityStrategy \<Rightarrow> 'a \<Rightarrow> 'a \<Rightarrow> ('a \<Rightarrow> 'a \<Rightarrow> bool) \<Rightarrow> 'a store \<Rightarrow> bool \<times> 'a store" where
  "InMemory_update this oldEntity newEntity equalsFn h =
     (let index = findIndex (\<lambda>e. equalsFn e oldEntity) (get_arr h (entities this))
      in if index = - 1 then (False, h)
         else (True, set_arr (entities this)
                       ((get_arr h (entities this))[nat index := newEntity]) h))"

definition InMemory_count :: "InMemoryEntityStrategy \<Rightarrow> 'a store \<Rightarrow> int" where
  "InMemory_count this h = int (length (get_arr h (entities this)))"

definition InMemory_getOne :: "InMemoryEntityStrategy \<Rightarrow> 'a Predicate \<Rightarrow> 'a store \<Rightarrow> 'a option" where
  "InMemory_getOne this p h = List.find p (get_arr h (entities this))"

definition InMemory_find ::
  "InMemoryEntityStrategy \<Rightarrow> 'a option QueryOptions option \<Rightarrow> 'a option store
     \<Rightarrow> ref \<times> 'a option store" where
  "InMemory_find this options h = applyFunctionalFilters (entities this) options h"

definition InMemory_findPage ::
  "InMemoryEntityStrategy \<Rightarrow> 'a option QueryOptions \<Rightarrow> 'a option store
     \<Rightarrow> PageResult \<times> 'a option store" where
  "InMemory_findPage this options h =
     (let (filtered, h1) = applyFunctionalFilters (entities this) (Some options) h
      in paginate filtered
           (case page options of Some p \<Rightarrow> p | None \<Rightarrow> 1)
           (case pageSize options of Some n \<Rightarrow> n | None \<Rightarrow> 10) h1)"

definition InMemory_clear ::
  "InMemoryEntityStrategy \<Rightarrow> 'a store \<Rightarrow> InMemoryEntityStrategy \<times> 'a store" where
  "InMemory_clear this h = (let (r, h1) = alloc [] h in (this\<lparr> entities := r \<rparr>, h1))"

text \<open>A run of the backend: the operations in order, each logged with what it returned.\<close>

datatype 'a operation = Add 'a | Remove 'a | Update 'a 'a

fun apply_operation ::
  "InMemoryEntityStrategy \<Rightarrow> ('a \<Rightarrow> 'a \<Rightarrow> bool) \<Rightarrow> 'a operation \<Rightarrow> 'a store
     \<Rightarrow> bool option \<times> 'a store" where
  "apply_operation this eq (Add e) h = (None, InMemory_add this e h)"
| "apply_operation this eq (Remove e) h =
     (let (found, h1) = InMemory_remove this e eq h in (Some found, h1))"
| "apply_operation this eq (Update e e') h =
     (let (found, h1) = InMemory_update this e e' eq h in (Some found, h1))"

fun run_operations ::
  "InMemoryEntityStrategy \<Rightarrow> ('a \<Rightarrow> 'a \<Rightarrow> bool) \<Rightarrow> 'a operation list \<Rightarrow> 'a store
     \<Rightarrow> ('a operation \<times> bool option) list \<times> 'a store" where
  "run_operations this eq [] h = ([], h)"
| "run_operations this eq (x # xs) h =
     (let (res, h1) = apply_operation this eq x h;
          (log, h2) = run_operations this eq xs h1
      in ((x, res) # log, h2))"

fun net_change :: "'a operation \<times> bool option \<Rightarrow> int" where
  "net_change (Add e, res) = 1"
| "net_change (Remove e, res) = (if res = Some True then - 1 else 0)"
| "net_change (Update e e', res) = 0"

section \<open>types/strategy.ts and management-entity.ts\<close>

text \<open>
  A strategy is an object of asynchronous methods: each may reject, and each may change
  the strategy's own state and the store. The optional methods may be absent.
\<close>

datatype fault = Fault string

type_synonym ('r, 's, 'a) async = "'s \<Rightarrow> 'a store \<Rightarrow> (fault + 'r) \<times> 's \<times> 'a store"

record ('a, 's) EntityManagementStrategy =
  getAll :: "(ref, 's, 'a) async"
  find :: "('a QueryOptions option \<Rightarrow> (ref, 's, 'a) async) option"
  findPage :: "('a QueryOptions \<Rightarrow> (PageResult, 's, 'a) async) option"

record ('a, 's) ManagementEntity =
  strategy :: "('a, 's) EntityManagementStrategy"
  equalsFn :: "'a \<Rightarrow> 'a \<Rightarrow> bool"

definition findEntities ::
  "('a option, 's) ManagementEntity \<Rightarrow> 'a option QueryOptions option
     \<Rightarrow> (ref, 's, 'a option) async" where
  "findEntities this options s h =
     (case EntityManagementStrategy.find (strategy this) of
        Some native \<Rightarrow> native options s h
      | None \<Rightarrow>
          (case getAll (strategy this) s h of
             (Inl e, s1, h1) \<Rightarrow> (Inl e, s1, h1)
           | (Inr all, s1, h1) \<Rightarrow>
               (let (r, h2) = applyFunctionalFilters all options h1 in (Inr r, s1, h2))))"

definition findEntitiesPage ::
  "('a option, 's) ManagementEntity \<Rightarrow> 'a option QueryOptions
     \<Rightarrow> (PageResult, 's, 'a option) async" where
  "findEntitiesPage this options s h =
     (case findPage (strategy this) of
        Some native \<Rightarrow> native options s h
      | None \<Rightarrow>
          (case findEntities this (Some options) s h of
             (Inl e, s1, h1) \<Rightarrow> (Inl e, s1, h1)
           | (Inr filtered, s1, h1) \<Rightarrow>
               (let (res, h2) =
                      paginate filtered
                        (case page options of Some p \<Rightarrow> p | None \<Rightarrow> 1)
                        (case pageSize options of Some n \<Rightarrow> n | None \<Rightarrow> 10) h1
                in (Inr res, s1, h2))))"

section \<open>strategies/typeorm.strategy.ts and strategies/sql.strategy.ts\<close>

text \<open>
  The TypeORM strategy's entities are objects with string keys, \<open>Record<string, any>\<close>;
  the spread \<open>{ ...a, ...b }\<close> takes every field of \<open>b\<close> and the fields of \<open>a\<close> that
  \<open>b\<close> lacks. The repository is the caller's: a state of type \<open>'r\<close> and three methods
  that may reject, each leaving a state behind. The arrays it returns are read and never
  changed, so they are passed as values.
\<close>

type_synonym 'v entity = "string \<rightharpoonup> 'v"

definition spread :: "'v entity \<Rightarrow> 'v entity \<Rightarrow> 'v entity" where
  "spread a b = a ++ b"

text \<open>
  The repository's \<open>find\<close> and \<open>findAndCount\<close> take an optional object of options.
  The strategy fills it from \<open>where\<close>, \<open>order\<close>, \<open>relations\<close> and \<open>select\<close>, which
  \<open>TypeOrmQueryOptions\<close> adds to \<open>QueryOptions\<close> with the type \<open>any\<close> and which it only
  tests for presence and hands on, and from \<open>skip\<close> and \<open>take\<close>.
\<close>

typedecl any

record FindOptions =
  where' :: "any option"
  order :: "any option"
  relations :: "any option"
  select :: "any option"
  skip :: "int option"
  take' :: "int option"

record 'a TypeOrmQueryOptions = "'a QueryOptions" +
  where' :: "any option"
  order :: "any option"
  relations :: "any option"
  select :: "any option"

record ('e, 'r) TypeOrmRepositoryLike =
  save :: "'e \<Rightarrow> 'r \<Rightarrow> (fault + unit) \<times> 'r"
  remove :: "'e \<Rightarrow> 'r \<Rightarrow> (fault + unit) \<times> 'r"
  find :: "FindOptions option \<Rightarrow> 'r \<Rightarrow> (fault + 'e list) \<times> 'r"
  findAndCount :: "FindOptions \<Rightarrow> 'r \<Rightarrow> (fault + 'e list \<times> int) \<times> 'r"


definition TypeOrm_update ::
  "('v entity, 'r) TypeOrmRepositoryLike \<Rightarrow> 'v entity \<Rightarrow> 'v entity
     \<Rightarrow> ('v entity \<Rightarrow> 'v entity \<Rightarrow> bool) \<Rightarrow> 'r \<Rightarrow> (fault + bool) \<times> 'r" where
  "TypeOrm_update repo oldEntity newEntity equalsFn' r =
     (case save repo (spread oldEntity newEntity) r of
        (Inr u, r1) \<Rightarrow> (Inr True, r1)
      | (Inl e, r1) \<Rightarrow>
          (case TypeOrmRepositoryLike.find repo None r1 of
             (Inl e', r2) \<Rightarrow> (Inl e', r2)
           | (Inr all, r2) \<Rightarrow>
               (case List.find (\<lambda>x. equalsFn' x oldEntity) all of
                  None \<Rightarrow> (Inr False, r2)
                | Some match \<Rightarrow>
                    (case save repo (spread match newEntity) r2 of
                       (Inl e', r3) \<Rightarrow> (Inl e', r3)
                     | (Inr u, r3) \<Rightarrow> (Inr True, r3)))))"

text \<open>The SQL strategy hands \<open>update\<close> to the adapter it was built with.\<close>

record ('e, 'r) SqlAdapter =
  update :: "'e \<Rightarrow> 'e \<Rightarrow> ('e \<Rightarrow> 'e \<Rightarrow> bool) \<Rightarrow> 'r \<Rightarrow> (fault + bool) \<times> 'r"

definition Sql_update ::
  "('e, 'r) SqlAdapter \<Rightarrow> 'e \<Rightarrow> 'e \<Rightarrow> ('e \<Rightarrow> 'e \<Rightarrow> bool) \<Rightarrow> 'r \<Rightarrow> (fault + bool) \<times> 'r" where
  "Sql_update adapter oldEntity newEntity equalsFn' r =
     update adapter oldEntity newEntity equalsFn' r"

text \<open>
  The strategy's \<open>getAll\<close>, \<open>find\<close> and \<open>findPage\<close>. An array that the repository
  returns is a new one. Called through the manager, whose options are \<open>QueryOptions\<close>,
  the strategy finds none of the four native options.
\<close>

definition TypeOrm_getAll ::
  "('e, 'r) TypeOrmRepositoryLike \<Rightarrow> (ref, 'r, 'e) async" where
  "TypeOrm_getAll repo r h =
     (case TypeOrmRepositoryLike.find repo None r of
        (Inl e, r1) \<Rightarrow> (Inl e, r1, h)
      | (Inr all, r1) \<Rightarrow> (let (a, h1) = alloc all h in (Inr a, r1, h1)))"

definition TypeOrm_find ::
  "('a option, 'r) TypeOrmRepositoryLike \<Rightarrow> 'a option TypeOrmQueryOptions option
     \<Rightarrow> (ref, 'r, 'a option) async" where
  "TypeOrm_find repo options r h =
     (let where'' = (case options of None \<Rightarrow> None | Some opts \<Rightarrow> where' opts);
          order' = (case options of None \<Rightarrow> None | Some opts \<Rightarrow> order opts);
          relations' = (case options of None \<Rightarrow> None | Some opts \<Rightarrow> relations opts);
          select' = (case options of None \<Rightarrow> None | Some opts \<Rightarrow> select opts);
          hasDbOptions =
            (where'' \<noteq> None \<or> order' \<noteq> None \<or> relations' \<noteq> None \<or> select' \<noteq> None)
      in case (if hasDbOptions
               then TypeOrmRepositoryLike.find repo
                      (Some \<lparr> FindOptions.where' = where'', order = order',
                               relations = relations', select = select',
                               skip = None, take' = None \<rparr>) r
               else TypeOrmRepositoryLike.find repo None r) of
           (Inl e, r1) \<Rightarrow> (Inl e, r1, h)
         | (Inr items', r1) \<Rightarrow>
             (let (db, h1) = alloc items' h;
                  (res, h2) =
                    applyFunctionalFilters db (map_option QueryOptions.truncate options) h1
              in (Inr res, r1, h2)))"

definition TypeOrm_findPage ::
  "('a option, 'r) TypeOrmRepositoryLike \<Rightarrow> 'a option TypeOrmQueryOptions
     \<Rightarrow> (PageResult, 'r, 'a option) async" where
  "TypeOrm_findPage repo options r h =
     (let page' = max 1 (case page options of Some p \<Rightarrow> p | None \<Rightarrow> 1);
          pageSize' = max 1 (case pageSize options of Some n \<Rightarrow> n | None \<Rightarrow> 10);
          skip' = (page' - 1) * pageSize';
          take'' = pageSize'
      in case findAndCount repo
                \<lparr> FindOptions.where' = where' options, order = order options,
                  relations = relations options, select = select options,
                  skip = Some skip', take' = Some take'' \<rparr> r of
           (Inl e, r1) \<Rightarrow> (Inl e, r1, h)
         | (Inr (itemsDb, totalDb), r1) \<Rightarrow>
             (let (db, h1) = alloc itemsDb h;
                  (items', h2) =
                    applyFunctionalFilters db (Some (QueryOptions.truncate options)) h1;
                  totalItems' = totalDb;
                  totalPages' = max 1 (ceil_quotient totalItems' pageSize');
                  safePage = min page' totalPages'
              in (Inr \<lparr> items = items',
                        page = safePage,
                        pageSize = pageSize',
                        totalItems = totalItems',
                        totalPages = totalPages',
                        hasNext = safePage < totalPages',
                        hasPrev = safePage > 1 \<rparr>, r1, h2)))"

definition TypeOrm_strategy ::
  "('a option, 'r) TypeOrmRepositoryLike \<Rightarrow> ('a option, 'r) EntityManagementStrategy" where
  "TypeOrm_strategy repo =
     \<lparr> getAll = TypeOrm_getAll repo,
       find = Some (\<lambda>options. TypeOrm_find repo
                 (map_option (\<lambda>opts. QueryOptions.extend opts
                    (TypeOrmQueryOptions.fields None None None None)) options)),
       findPage = Some (\<lambda>options. TypeOrm_findPage repo
                 (QueryOptions.extend options
                    (TypeOrmQueryOptions.fields None None None None))) \<rparr>"

text \<open>
  A repository over a list, for concrete runs: \<open>save\<close> appends, \<open>remove\<close> rejects an
  entity that is not stored, \<open>find\<close> returns the list, and \<open>findAndCount\<close> returns the
  \<open>take\<close> entities after the first \<open>skip\<close>, with the length of the list.
\<close>

definition list_repository :: "('e, 'e list) TypeOrmRepositoryLike" where
  "list_repository =
     \<lparr> save = (\<lambda>e r. (Inr (), r @ [e])),
       remove = (\<lambda>e r. if e \<in> set r then (Inr (), remove1 e r)
                        else (Inl (Fault ''EntityNotFound''), r)),
       find = (\<lambda>options r. (Inr r, r)),
       findAndCount = (\<lambda>options r.
          (Inr (List.take (case take' options of Some n \<Rightarrow> nat n | None \<Rightarrow> length r)
                  (drop (case FindOptions.skip options of Some k \<Rightarrow> nat k | None \<Rightarrow> 0) r),
                int (length r)), r)) \<rparr>"

text \<open>
  A second repository, whose \<open>save\<close> rejects an entity without an \<open>id\<close>, and four
  entities for concrete runs.
\<close>

definition checked_repository :: "('v entity, 'v entity list) TypeOrmRepositoryLike" where
  "checked_repository =
     \<lparr> save = (\<lambda>e r. if e ''id'' = None then (Inl (Fault ''NotNullViolation''), r)
                      else (Inr (), r @ [e])),
       remove = remove list_repository,
       find = TypeOrmRepositoryLike.find list_repository,
       findAndCount = findAndCount list_repository \<rparr>"

definition old_entity :: "nat entity" where
  "old_entity = [''id'' \<mapsto> 1, ''name'' \<mapsto> 5]"

definition new_entity :: "nat entity" where
  "new_entity = [''id'' \<mapsto> 2]"

definition unkeyed_entity :: "nat entity" where
  "unkeyed_entity = [''name'' \<mapsto> 5]"

definition renamed_entity :: "nat entity" where
  "renamed_entity = [''name'' \<mapsto> 6]"

text \<open>
  Three stored entities, and a request for the fifth page of two, which is past the
  second and last page.
\<close>

definition three_entities :: "nat entity option list" where
  "three_entities = [Some old_entity, Some new_entity, Some unkeyed_entity]"

definition fifth_page :: "nat entity option QueryOptions" where
  "fifth_page =
     \<lparr> page = Some 5, pageSize = Some 2, predicate = None, filters = None, sortBy = None \<rparr>"

text \<open>
  A strategy with neither \<open>find\<close> nor \<open>findPage\<close>, for concrete runs: it keeps its
  entities in its own state and \<open>getAll\<close> puts them into a new array.
\<close>

definition list_strategy :: "('a, 'a list) EntityManagementStrategy" where
  "list_strategy =
     \<lparr> getAll = (\<lambda>s h. (Inr (length h), s, h @ [s])), find = None, findPage = None \<rparr>"

section \<open>What the specification asks of a comparator and of the filter\<close>

text \<open>
  The specification takes \<open>sortBy\<close> to be the comparator of a total order: the sign of
  \<open>cmp a b\<close> is the opposite of the sign of \<open>cmp b a\<close>, and "not after" is
  transitive. An entity passes the filter when the main predicate accepts it, or is
  absent, and every entry of \<open>filters\<close> accepts it.
\<close>

definition consistent_comparator :: "('a \<Rightarrow> 'a \<Rightarrow> int) \<Rightarrow> bool" where
  "consistent_comparator cmp \<longleftrightarrow>
     (\<forall>a b. cmp a b < 0 \<longleftrightarrow> 0 < cmp b a) \<and>
     (\<forall>a b c. cmp a b \<le> 0 \<and> cmp b c \<le> 0 \<longrightarrow> cmp a c \<le> 0)"

definition passes :: "'a QueryOptions option \<Rightarrow> 'a \<Rightarrow> bool" where
  "passes options e =
     (case options of
        None \<Rightarrow> True
      | Some opts \<Rightarrow>
          (case predicate opts of None \<Rightarrow> True | Some p \<Rightarrow> p e) \<and>
          (case filters opts of None \<Rightarrow> True | Some fs \<Rightarrow> \<forall>f \<in> set fs. f e))"

text \<open>
  A strategy with a native \<open>find\<close> that filters and does not sort, and no \<open>findPage\<close>,
  for concrete runs.
\<close>

definition filtering_strategy :: "('a, 'a list) EntityManagementStrategy" where
  "filtering_strategy =
     \<lparr> getAll = (\<lambda>s h. (Inr (length h), s, h @ [s])),
       find = Some (\<lambda>options s h. (Inr (length h), s, h @ [filter (passes options) s])),
       findPage = None \<rparr>"

text \<open>
  A comparator under which any two elements are equal, and options that sort by it and
  filter nothing, for concrete runs.
\<close>

definition all_equal :: "nat option \<Rightarrow> nat option \<Rightarrow> int" where
  "all_equal a b = 0"

definition tie_options :: "nat option QueryOptions" where
  "tie_options =
     \<lparr> page = None, pageSize = None, predicate = None, filters = None,
       sortBy = Some all_equal \<rparr>"

section \<open>Facts about the store and the array methods\<close>

lemma ceil_quotient_div: "ceil_quotient a b = - ((- a) div b)"
  unfolding ceil_quotient_def by (simp add: ceiling_divide_eq_div)

lemma get_arr_alloc_new [simp]: "get_arr (h @ [xs]) (length h) = xs"
  by (simp add: get_arr_def)

lemma get_arr_alloc_old [simp]: "valid h r \<Longrightarrow> get_arr (h @ [xs]) r = get_arr h r"
  by (simp add: get_arr_def valid_def nth_append)

lemma array_slice_window:
  assumes "0 \<le> start" "start \<le> end"
  shows "array_slice xs start end = take (nat (end - start)) (drop (nat start) xs)"
  using assms by (auto simp: array_slice_def relative_index_def Let_def min_def)

lemma ceil_quotient_bounds:
  fixes n s :: int
  assumes "1 \<le> s"
  shows "(ceil_quotient n s - 1) * s < n" and "n \<le> ceil_quotient n s * s"
proof -
  let ?q = "(- n) div s"
  have s: "0 < s" using assms by simp
  have eq: "s * ?q + (- n) mod s = - n" by (rule mult_div_mod_eq)
  have m0: "0 \<le> (- n) mod s" using s by simp
  have m1: "(- n) mod s < s" using s by simp
  have lo: "s * ?q \<le> - n" using eq m0 by linarith
  have hi: "- n < s * ?q + s" using eq m1 by linarith
  show "(ceil_quotient n s - 1) * s < n" using hi by (simp add: ceil_quotient_div algebra_simps)
  show "n \<le> ceil_quotient n s * s" using lo by (simp add: ceil_quotient_div algebra_simps)
qed


lemma paginate_unfold:
  "paginate r p ps h =
     (let size = max 1 ps;
          n = int (length (get_arr h r));
          pages = max 1 (ceil_quotient n size);
          eff = min (max 1 p) pages
      in (\<lparr> items = length h, page = eff, pageSize = size, totalItems = n,
             totalPages = pages, hasNext = eff < pages, hasPrev = 1 < eff \<rparr>,
          h @ [take (nat size) (drop (nat ((eff - 1) * size)) (get_arr h r))]))"
proof -
  have w: "array_slice xs ((e - 1) * s) ((e - 1) * s + s) = take (nat s) (drop (nat ((e - 1) * s)) xs)"
    if "1 \<le> e" "1 \<le> s" for xs :: "'a list" and e s :: int
    using that by (simp add: array_slice_window)
  show ?thesis
    by (simp add: paginate_def Let_def alloc_def w)
qed

lemma full_page_before_last:
  fixes n s e :: int
  assumes s: "1 \<le> s" and e: "1 \<le> e" and lt: "e < max 1 (ceil_quotient n s)"
  shows "e * s < n"
proof -
  have "e \<le> ceil_quotient n s - 1" using lt e by simp
  then have "e * s \<le> (ceil_quotient n s - 1) * s"
    using s by (intro mult_right_mono) simp_all
  also have "\<dots> < n" using s by (rule ceil_quotient_bounds(1))
  finally show ?thesis .
qed

lemma window_length_le:
  fixes s :: int
  assumes "1 \<le> s"
  shows "int (length (take (nat s) (drop k xs))) \<le> s"
proof -
  have "length (take (nat s) (drop k xs)) \<le> nat s" by simp
  then show ?thesis using assms by linarith
qed

lemma window_length_full:
  fixes s a :: int
  assumes "1 \<le> s" "0 \<le> a" "a + s \<le> int (length xs)"
  shows "int (length (take (nat s) (drop (nat a) xs))) = s"
proof -
  have "nat a + nat s \<le> length xs" using assms by linarith
  then have "length (take (nat s) (drop (nat a) xs)) = nat s" by simp
  then show ?thesis using assms by linarith
qed

lemma get_arr_set_same [simp]: "valid h r \<Longrightarrow> get_arr (set_arr r xs h) r = xs"
  by (simp add: get_arr_def set_arr_def valid_def)

lemma get_arr_set_other [simp]: "r' \<noteq> r \<Longrightarrow> get_arr (set_arr r xs h) r' = get_arr h r'"
  by (simp add: get_arr_def set_arr_def)

lemma valid_set_arr [simp]: "valid (set_arr r xs h) r' = valid h r'"
  by (simp add: set_arr_def valid_def)

lemma valid_alloc [simp]: "valid h r \<Longrightarrow> valid (h @ [xs]) r"
  by (simp add: valid_def)

lemma findIndex_lower: "- 1 \<le> findIndex p xs"
  by (induction xs) (auto simp: Let_def)

lemma findIndex_none: "findIndex p xs = - 1 \<longleftrightarrow> (\<forall>x \<in> set xs. \<not> p x)"
proof (induction xs)
  case Nil
  show ?case by simp
next
  case (Cons x xs)
  have "findIndex p xs + 1 \<noteq> - 1" using findIndex_lower [of p xs] by linarith
  with Cons show ?case by (auto simp: Let_def)
qed

lemma findIndex_found:
  assumes "findIndex p xs \<noteq> - 1"
  shows "0 \<le> findIndex p xs \<and> nat (findIndex p xs) < length xs
           \<and> p (xs ! nat (findIndex p xs))
           \<and> (\<forall>j < nat (findIndex p xs). \<not> p (xs ! j))"
  using assms
proof (induction xs)
  case Nil
  then show ?case by simp
next
  case (Cons x xs)
  show ?case
  proof (cases "p x")
    case True
    then show ?thesis by simp
  next
    case False
    with Cons.prems have ne: "findIndex p xs \<noteq> - 1" by (auto simp: Let_def split: if_splits)
    note ih = Cons.IH [OF ne]
    have eq: "findIndex p (x # xs) = findIndex p xs + 1" using False ne by (simp add: Let_def)
    have n: "nat (findIndex p xs + 1) = Suc (nat (findIndex p xs))" using ih by linarith
    show ?thesis unfolding eq n using ih False
      by (auto simp: nth_Cons split: nat.splits)
  qed
qed

lemma array_splice_one:
  assumes "0 \<le> i" "nat i < length xs"
  shows "array_splice xs i 1 = take (nat i) xs @ drop (Suc (nat i)) xs"
proof -
  have "nat (i + 1) = Suc (nat i)" using assms by linarith
  then show ?thesis using assms
    by (auto simp: array_splice_def relative_index_def Let_def min_def)
qed

lemma mset_sort_insert: "mset (sort_insert cmp x ys) = add_mset x (mset ys)"
  by (induction ys) simp_all

lemma mset_stable_sort: "mset (stable_sort cmp xs) = mset xs"
  by (induction xs) (simp_all add: mset_sort_insert)

lemma set_sort_insert: "set (sort_insert cmp x ys) = insert x (set ys)"
  using mset_sort_insert [of cmp x ys, THEN arg_cong, of set_mset] by simp

lemma comparator_flip:
  assumes "consistent_comparator cmp"
  shows "\<not> cmp a b \<le> 0 \<Longrightarrow> cmp b a \<le> 0"
    and "cmp a b = 0 \<Longrightarrow> cmp b a = 0"
proof -
  have sw: "cmp u v < 0 \<longleftrightarrow> 0 < cmp v u" for u v
    using assms by (simp add: consistent_comparator_def)
  show "\<not> cmp a b \<le> 0 \<Longrightarrow> cmp b a \<le> 0" using sw [of b a] by linarith
  show "cmp a b = 0 \<Longrightarrow> cmp b a = 0" using sw [of a b] sw [of b a] by linarith
qed

lemma comparator_trans:
  assumes "consistent_comparator cmp" "cmp a b \<le> 0" "cmp b c \<le> 0"
  shows "cmp a c \<le> 0"
  using assms unfolding consistent_comparator_def by blast

lemma sorted_sort_insert:
  assumes c: "consistent_comparator cmp"
    and s: "sorted_wrt (\<lambda>a b. cmp a b \<le> 0) ys"
  shows "sorted_wrt (\<lambda>a b. cmp a b \<le> 0) (sort_insert cmp x ys)"
  using s
proof (induction ys)
  case Nil
  show ?case by simp
next
  case (Cons y ys)
  show ?case
  proof (cases "cmp x y \<le> 0")
    case True
    have "cmp x z \<le> 0" if "z \<in> set ys" for z
      using comparator_trans [OF c True] Cons.prems that by simp
    with True Cons.prems show ?thesis by simp
  next
    case False
    have yx: "cmp y x \<le> 0" using comparator_flip(1) [OF c False] .
    from Cons have "sorted_wrt (\<lambda>a b. cmp a b \<le> 0) (sort_insert cmp x ys)" by simp
    with False yx Cons.prems show ?thesis by (simp add: set_sort_insert)
  qed
qed

lemma sorted_stable_sort:
  assumes "consistent_comparator cmp"
  shows "sorted_wrt (\<lambda>a b. cmp a b \<le> 0) (stable_sort cmp xs)"
  by (induction xs) (simp_all add: sorted_sort_insert [OF assms])

lemma stable_sort_insert:
  assumes c: "consistent_comparator cmp"
  shows "filter (\<lambda>e. cmp k e = 0) (sort_insert cmp x ys)
           = (if cmp k x = 0 then x # filter (\<lambda>e. cmp k e = 0) ys
              else filter (\<lambda>e. cmp k e = 0) ys)"
proof (induction ys)
  case Nil
  show ?case by simp
next
  case (Cons y ys)
  show ?case
  proof (cases "cmp x y \<le> 0")
    case True
    then show ?thesis by simp
  next
    case False
    have "cmp k y \<noteq> 0" if kx: "cmp k x = 0"
    proof
      assume ky: "cmp k y = 0"
      have "cmp x k \<le> 0" using comparator_flip(2) [OF c kx] by simp
      moreover have "cmp k y \<le> 0" using ky by simp
      ultimately have "cmp x y \<le> 0" by (rule comparator_trans [OF c])
      with False show False ..
    qed
    with False Cons show ?thesis by simp
  qed
qed

lemma stable_sort_stable:
  assumes "consistent_comparator cmp"
  shows "filter (\<lambda>e. cmp k e = 0) (stable_sort cmp xs) = filter (\<lambda>e. cmp k e = 0) xs"
  by (induction xs) (simp_all add: stable_sort_insert [OF assms])

lemma CompareArrayElements_simps [simp]:
  "CompareArrayElements cmp None None = 0"
  "CompareArrayElements cmp None (Some v) = 1"
  "CompareArrayElements cmp (Some u) None = - 1"
  "CompareArrayElements cmp (Some u) (Some v) = cmp (Some u) (Some v)"
  by (simp_all add: CompareArrayElements_def)

lemma CompareArrayElements_consistent:
  assumes c: "consistent_comparator (\<lambda>a b. cmp (Some a) (Some b))"
  shows "consistent_comparator (CompareArrayElements cmp)"
proof -
  have sw: "cmp (Some u) (Some v) < 0 \<longleftrightarrow> 0 < cmp (Some v) (Some u)" for u v
    using c by (simp add: consistent_comparator_def)
  have tr: "cmp (Some u) (Some v) \<le> 0 \<Longrightarrow> cmp (Some v) (Some w) \<le> 0
              \<Longrightarrow> cmp (Some u) (Some w) \<le> 0" for u v w
    using c unfolding consistent_comparator_def by blast
  show ?thesis
    unfolding consistent_comparator_def
  proof (intro conjI allI impI)
    fix a b :: "'a option"
    show "CompareArrayElements cmp a b < 0 \<longleftrightarrow> 0 < CompareArrayElements cmp b a"
      by (cases a; cases b) (simp_all add: sw)
  next
    fix a b d :: "'a option"
    assume "CompareArrayElements cmp a b \<le> 0 \<and> CompareArrayElements cmp b d \<le> 0"
    then show "CompareArrayElements cmp a d \<le> 0"
      by (cases a; cases b; cases d) (auto intro: tr)
  qed
qed

lemma sort_insert_undefined:
  assumes "\<forall>y \<in> set ds. y \<noteq> None" "\<forall>y \<in> set ns. y = None"
  shows "sort_insert (CompareArrayElements cmp) None (ds @ ns) = ds @ None # ns"
  using assms
proof (induction ds)
  case Nil
  then show ?case by (cases ns) simp_all
next
  case (Cons d ds)
  then obtain u where "d = Some u" by auto
  with Cons show ?case by simp
qed

lemma sort_insert_value:
  assumes "\<forall>y \<in> set ds. y \<noteq> None" "\<forall>y \<in> set ns. y = None"
  shows "sort_insert (CompareArrayElements cmp) (Some a) (ds @ ns)
           = sort_insert cmp (Some a) ds @ ns"
  using assms
proof (induction ds)
  case Nil
  then show ?case by (cases ns) simp_all
next
  case (Cons d ds)
  then obtain u where "d = Some u" by auto
  with Cons show ?case by simp
qed

lemma array_sort_undefined_last:
  "array_sort cmp xs
     = stable_sort cmp (filter (\<lambda>e. e \<noteq> None) xs) @ filter (\<lambda>e. e = None) xs"
proof (induction xs)
  case Nil
  show ?case by (simp add: array_sort_def)
next
  case (Cons x xs)
  let ?S = "stable_sort cmp (filter (\<lambda>e. e \<noteq> None) xs)"
  let ?N = "filter (\<lambda>e. e = None) xs"
  have S: "\<forall>y \<in> set ?S. y \<noteq> None"
    using mset_stable_sort [of cmp "filter (\<lambda>e. e \<noteq> None) xs", THEN arg_cong, of set_mset]
    by auto
  have N: "\<forall>y \<in> set ?N. y = None" by simp
  have "array_sort cmp (x # xs) = sort_insert (CompareArrayElements cmp) x (?S @ ?N)"
    using Cons by (simp add: array_sort_def)
  also have "\<dots> = stable_sort cmp (filter (\<lambda>e. e \<noteq> None) (x # xs)) @ filter (\<lambda>e. e = None) (x # xs)"
  proof (cases x)
    case None
    then show ?thesis using sort_insert_undefined [OF S N, of cmp] by simp
  next
    case (Some a)
    then show ?thesis using sort_insert_value [OF S N, of cmp a] by simp
  qed
  finally show ?case .
qed

lemma mset_array_sort: "mset (array_sort cmp xs) = mset xs"
  by (simp add: array_sort_def mset_stable_sort)

lemma array_sort_values_first:
  "array_sort cmp xs
     = filter (\<lambda>e. e \<noteq> None) (array_sort cmp xs) @ filter (\<lambda>e. e = None) xs"
proof -
  let ?S = "stable_sort cmp (filter (\<lambda>e. e \<noteq> None) xs)"
  let ?N = "filter (\<lambda>e. e = None) xs"
  have "set ?S = set (filter (\<lambda>e. e \<noteq> None) xs)"
    using mset_stable_sort [of cmp "filter (\<lambda>e. e \<noteq> None) xs", THEN arg_cong, of set_mset]
    by simp
  then have S: "filter (\<lambda>e. e \<noteq> None) ?S = ?S" by (auto simp: filter_id_conv)
  have N: "filter (\<lambda>e. e \<noteq> None) ?N = []" by (induction xs) simp_all
  have "filter (\<lambda>e. e \<noteq> None) (array_sort cmp xs) = ?S"
    by (simp only: array_sort_undefined_last filter_append S N append_Nil2)
  then show ?thesis using array_sort_undefined_last [of cmp xs] by simp
qed

lemma array_sort_sorted:
  assumes c: "consistent_comparator (\<lambda>a b. cmp (Some a) (Some b))"
  shows "sorted_wrt (\<lambda>a b. cmp a b \<le> 0) (filter (\<lambda>e. e \<noteq> None) (array_sort cmp xs))"
proof -
  have "sorted_wrt (\<lambda>a b. CompareArrayElements cmp a b \<le> 0) (array_sort cmp xs)"
    unfolding array_sort_def
    by (rule sorted_stable_sort [OF CompareArrayElements_consistent [OF c]])
  then have "sorted_wrt (\<lambda>a b. CompareArrayElements cmp a b \<le> 0)
               (filter (\<lambda>e. e \<noteq> None) (array_sort cmp xs))"
    by (rule sorted_wrt_filter)
  then show ?thesis
    by (rule sorted_wrt_mono_rel [rotated]) auto
qed

lemma array_sort_stable:
  assumes c: "consistent_comparator (\<lambda>a b. cmp (Some a) (Some b))"
  shows "filter (\<lambda>e. e \<noteq> None \<and> cmp (Some k) e = 0) (array_sort cmp xs)
           = filter (\<lambda>e. e \<noteq> None \<and> cmp (Some k) e = 0) xs"
proof -
  have eq: "(\<lambda>e. e \<noteq> None \<and> cmp (Some k) e = 0)
              = (\<lambda>e. CompareArrayElements cmp (Some k) e = 0)"
    by (rule ext) (case_tac e, simp_all)
  show ?thesis
    unfolding eq array_sort_def
    by (rule stable_sort_stable [OF CompareArrayElements_consistent [OF c]])
qed

lemma applyFunctionalFilters_keep:
  "filter (\<lambda>entity.
       let mainOk = (case (case options of None \<Rightarrow> None | Some opts \<Rightarrow> predicate opts) of
                       Some p \<Rightarrow> p entity | None \<Rightarrow> True)
       in if \<not> mainOk then False
          else list_all (\<lambda>f. f entity)
                 (case options of None \<Rightarrow> []
                  | Some opts \<Rightarrow> (case filters opts of None \<Rightarrow> [] | Some fs \<Rightarrow> fs))) xs
   = filter (passes options) xs"
  by (rule filter_cong) (auto simp: passes_def Let_def list_all_iff split: option.splits)

lemma applyFunctionalFilters_unfold:
  "applyFunctionalFilters r options h =
     (case (case options of None \<Rightarrow> None | Some opts \<Rightarrow> sortBy opts) of
        None \<Rightarrow> (length h, h @ [filter (passes options) (get_arr h r)])
      | Some cmp \<Rightarrow>
          (Suc (length h),
           h @ [filter (passes options) (get_arr h r),
                array_sort cmp (filter (passes options) (get_arr h r))]))"
proof -
  have "applyFunctionalFilters r options h =
     (let (filtered, h1) = alloc (filter (passes options) (get_arr h r)) h
      in case (case options of None \<Rightarrow> None | Some opts \<Rightarrow> sortBy opts) of
           None \<Rightarrow> (filtered, h1)
         | Some cmp \<Rightarrow>
             (let (copy, h2) = alloc (get_arr h1 filtered) h1
              in (copy, set_arr copy (array_sort cmp (get_arr h2 copy)) h2)))"
    unfolding applyFunctionalFilters_def
    by (subst applyFunctionalFilters_keep [symmetric]) (simp add: Let_def)
  then show ?thesis
    by (simp add: alloc_def set_arr_def get_arr_def nth_append list_update_append split: option.splits)
qed

lemma InMemory_remove_none:
  assumes "\<forall>e \<in> set (get_arr h (entities this)). \<not> eq e entity"
  shows "InMemory_remove this entity eq h = (False, h)"
  using assms by (simp add: InMemory_remove_def findIndex_none)

lemma InMemory_update_none:
  assumes "\<forall>e \<in> set (get_arr h (entities this)). \<not> eq e entity"
  shows "InMemory_update this entity newEntity eq h = (False, h)"
  using assms by (simp add: InMemory_update_def findIndex_none)

lemma InMemory_update_found:
  assumes v: "valid h (entities this)"
    and i: "findIndex (\<lambda>e. eq e old) (get_arr h (entities this)) \<noteq> - 1"
  shows "InMemory_update this old new eq h =
           (True, set_arr (entities this)
              ((get_arr h (entities this))[nat (findIndex (\<lambda>e. eq e old) (get_arr h (entities this))) := new]) h)"
  using i by (simp add: InMemory_update_def Let_def)

lemma InMemory_add_effect:
  assumes "valid h (entities this)"
  shows "get_arr (InMemory_add this e h) (entities this) = get_arr h (entities this) @ [e]"
    and "valid (InMemory_add this e h) (entities this)"
  using assms by (simp_all add: InMemory_add_def)

lemma InMemory_remove_effect:
  assumes v: "valid h (entities this)"
  shows "valid (snd (InMemory_remove this e eq h)) (entities this)"
    and "int (length (get_arr (snd (InMemory_remove this e eq h)) (entities this)))
           = int (length (get_arr h (entities this)))
             - (if fst (InMemory_remove this e eq h) then 1 else 0)"
proof -
  let ?xs = "get_arr h (entities this)"
  let ?k = "findIndex (\<lambda>x. eq x e) ?xs"
  show "valid (snd (InMemory_remove this e eq h)) (entities this)"
    using v by (simp add: InMemory_remove_def Let_def)
  show "int (length (get_arr (snd (InMemory_remove this e eq h)) (entities this)))
           = int (length ?xs) - (if fst (InMemory_remove this e eq h) then 1 else 0)"
  proof (cases "?k = - 1")
    case True
    then show ?thesis by (simp add: InMemory_remove_def)
  next
    case False
    note f = findIndex_found [OF False]
    have sp: "array_splice ?xs ?k 1 = take (nat ?k) ?xs @ drop (Suc (nat ?k)) ?xs"
      using f by (intro array_splice_one) simp_all
    have "length (array_splice ?xs ?k 1) = length ?xs - 1"
      using f unfolding sp by (simp add: min_def)
    moreover have "0 < length ?xs" using f by linarith
    ultimately have "int (length (array_splice ?xs ?k 1)) = int (length ?xs) - 1"
      by linarith
    then show ?thesis using False v
      by (simp add: InMemory_remove_def Let_def)
  qed
qed

lemma InMemory_update_effect:
  assumes v: "valid h (entities this)"
  shows "valid (snd (InMemory_update this e e' eq h)) (entities this)"
    and "length (get_arr (snd (InMemory_update this e e' eq h)) (entities this))
           = length (get_arr h (entities this))"
  using v by (simp_all add: InMemory_update_def Let_def)

lemma apply_operation_count:
  assumes v: "valid h (entities this)"
  shows "valid (snd (apply_operation this eq x h)) (entities this)"
    and "InMemory_count this (snd (apply_operation this eq x h))
           = InMemory_count this h + net_change (x, fst (apply_operation this eq x h))"
proof -
  show "valid (snd (apply_operation this eq x h)) (entities this)"
    using InMemory_add_effect(2) [OF v] InMemory_remove_effect(1) [OF v]
      InMemory_update_effect(1) [OF v]
    by (cases x) (simp_all add: split_beta)
  show "InMemory_count this (snd (apply_operation this eq x h))
           = InMemory_count this h + net_change (x, fst (apply_operation this eq x h))"
  proof (cases x)
    case (Add e)
    then show ?thesis using InMemory_add_effect(1) [OF v] by (simp add: InMemory_count_def)
  next
    case (Remove e)
    then show ?thesis using InMemory_remove_effect(2) [OF v, of e eq]
      by (simp add: InMemory_count_def split_beta)
  next
    case (Update e e')
    then show ?thesis using InMemory_update_effect(2) [OF v, of e e' eq]
      by (simp add: InMemory_count_def split_beta)
  qed
qed

lemma run_operations_count:
  assumes "valid h (entities this)"
  shows "valid (snd (run_operations this eq ops h)) (entities this)
       \<and> map fst (fst (run_operations this eq ops h)) = ops
       \<and> InMemory_count this (snd (run_operations this eq ops h))
           = InMemory_count this h + sum_list (map net_change (fst (run_operations this eq ops h)))"
  using assms
proof (induction ops arbitrary: h)
  case Nil
  then show ?case by simp
next
  case (Cons x xs)
  let ?h1 = "snd (apply_operation this eq x h)"
  note step = apply_operation_count [OF Cons.prems, of eq x]
  note ih = Cons.IH [OF step(1)]
  show ?case using ih step(2) by (simp add: split_beta)
qed

lemma applyFunctionalFilters_contents:
  "get_arr (snd (applyFunctionalFilters r options h)) (fst (applyFunctionalFilters r options h))
     = (case (case options of None \<Rightarrow> None | Some opts \<Rightarrow> sortBy opts) of
          None \<Rightarrow> filter (passes options) (get_arr h r)
        | Some cmp \<Rightarrow> array_sort cmp (filter (passes options) (get_arr h r)))"
  by (simp add: applyFunctionalFilters_unfold get_arr_def nth_append split: option.splits)

lemma paginate_contents:
  "get_arr (snd (paginate r p ps h)) (items (fst (paginate r p ps h)))
     = (let size = max 1 ps;
            pages = max 1 (ceil_quotient (int (length (get_arr h r))) size);
            eff = min (max 1 p) pages
        in take (nat size) (drop (nat ((eff - 1) * size)) (get_arr h r)))"
  by (simp add: paginate_unfold Let_def)

lemma paginate_fields:
  "PageResult.page (fst (paginate r p ps h))
     = min (max 1 p) (max 1 (ceil_quotient (int (length (get_arr h r))) (max 1 ps)))"
  "PageResult.pageSize (fst (paginate r p ps h)) = max 1 ps"
  "totalItems (fst (paginate r p ps h)) = int (length (get_arr h r))"
  "totalPages (fst (paginate r p ps h))
     = max 1 (ceil_quotient (int (length (get_arr h r))) (max 1 ps))"
  "hasNext (fst (paginate r p ps h))
     = (min (max 1 p) (max 1 (ceil_quotient (int (length (get_arr h r))) (max 1 ps)))
          < max 1 (ceil_quotient (int (length (get_arr h r))) (max 1 ps)))"
  "hasPrev (fst (paginate r p ps h))
     = (1 < min (max 1 p) (max 1 (ceil_quotient (int (length (get_arr h r))) (max 1 ps))))"
  by (simp_all add: paginate_unfold Let_def)

lemma last_page_window:
  fixes n s :: int
  assumes s: "1 \<le> s" and n: "0 < n"
  shows "(max 1 (ceil_quotient n s) - 1) * s < n"
    and "n \<le> max 1 (ceil_quotient n s) * s"
proof -
  have lo: "(ceil_quotient n s - 1) * s < n" using s by (rule ceil_quotient_bounds(1))
  have hi: "n \<le> ceil_quotient n s * s" using s by (rule ceil_quotient_bounds(2))
  show "(max 1 (ceil_quotient n s) - 1) * s < n"
    using lo n by (simp add: max_def)
  have "ceil_quotient n s * s \<le> max 1 (ceil_quotient n s) * s"
    using s by (intro mult_right_mono) simp_all
  with hi show "n \<le> max 1 (ceil_quotient n s) * s" by linarith
qed

lemma paginate_past_end:
  assumes ne: "get_arr h r \<noteq> []"
    and past: "totalPages (fst (paginate r p ps h)) < p"
  shows "PageResult.page (fst (paginate r p ps h)) = totalPages (fst (paginate r p ps h))"
    and "get_arr (snd (paginate r p ps h)) (items (fst (paginate r p ps h)))
           = drop (nat ((totalPages (fst (paginate r p ps h)) - 1) * max 1 ps)) (get_arr h r)"
    and "get_arr (snd (paginate r p ps h)) (items (fst (paginate r p ps h))) \<noteq> []"
    and "get_arr (snd (paginate r p ps h)) (items (fst (paginate r p ps h)))
           = get_arr (snd (paginate r (totalPages (fst (paginate r p ps h))) ps h))
               (items (fst (paginate r (totalPages (fst (paginate r p ps h))) ps h)))"
    and "\<not> hasNext (fst (paginate r p ps h))"
proof -
  let ?xs = "get_arr h r"
  let ?s = "max 1 ps"
  let ?n = "int (length ?xs)"
  let ?pages = "max 1 (ceil_quotient ?n ?s)"
  have tp: "totalPages (fst (paginate r p ps h)) = ?pages" by (rule paginate_fields(4))
  have p: "?pages < p" using past unfolding tp .
  have s1: "1 \<le> ?s" by simp
  have n0: "0 < ?n" using ne by simp
  have pg1: "1 \<le> ?pages" by simp
  have eff: "min (max 1 p) ?pages = ?pages" using p pg1 by linarith
  have eff': "min (max 1 ?pages) ?pages = ?pages" using pg1 by linarith
  note w = last_page_window [OF s1 n0]
  have st0: "0 \<le> (?pages - 1) * ?s"
  proof (rule mult_nonneg_nonneg)
    show "0 \<le> ?pages - 1" using pg1 by linarith
    show "0 \<le> ?s" using s1 by linarith
  qed
  have "?n - (?pages - 1) * ?s \<le> ?s" using w(2) by (simp add: algebra_simps)
  then have short: "length (drop (nat ((?pages - 1) * ?s)) ?xs) \<le> nat ?s"
    using st0 by simp linarith
  have out: "take (nat ?s) (drop (nat ((?pages - 1) * ?s)) ?xs) = drop (nat ((?pages - 1) * ?s)) ?xs"
    using short by (rule take_all)
  have "nat ((?pages - 1) * ?s) < length ?xs" using w(1) st0 by linarith
  then have nonempty: "drop (nat ((?pages - 1) * ?s)) ?xs \<noteq> []" by simp
  show "PageResult.page (fst (paginate r p ps h)) = totalPages (fst (paginate r p ps h))"
    unfolding paginate_fields eff ..
  show c: "get_arr (snd (paginate r p ps h)) (items (fst (paginate r p ps h)))
           = drop (nat ((totalPages (fst (paginate r p ps h)) - 1) * max 1 ps)) ?xs"
    unfolding paginate_contents Let_def tp eff out ..
  show "get_arr (snd (paginate r p ps h)) (items (fst (paginate r p ps h))) \<noteq> []"
    unfolding c tp by (rule nonempty)
  show "get_arr (snd (paginate r p ps h)) (items (fst (paginate r p ps h)))
           = get_arr (snd (paginate r (totalPages (fst (paginate r p ps h))) ps h))
               (items (fst (paginate r (totalPages (fst (paginate r p ps h))) ps h)))"
    unfolding paginate_contents Let_def tp eff eff' ..
  show "\<not> hasNext (fst (paginate r p ps h))"
    unfolding paginate_fields eff by simp
qed

lemma InMemory_findPage_unfold:
  "InMemory_findPage this options h =
     paginate (fst (InMemory_find this (Some options) h))
       (case page options of Some p \<Rightarrow> p | None \<Rightarrow> 1)
       (case pageSize options of Some n \<Rightarrow> n | None \<Rightarrow> 10)
       (snd (InMemory_find this (Some options) h))"
  by (simp add: InMemory_findPage_def InMemory_find_def split_beta)

lemma find_first_match:
  assumes "i < length xs" "p (xs ! i)" "\<forall>j < i. \<not> p (xs ! j)"
  shows "List.find p xs = Some (xs ! i)"
  using assms by (auto simp: find_Some_iff)

lemma find_no_match:
  assumes "\<forall>x \<in> set xs. \<not> p x"
  shows "List.find p xs = None"
  using assms by (simp add: find_None_iff)

lemma InMemory_update_found_iff:
  "fst (InMemory_update this old new eq h) = (\<exists>x \<in> set (get_arr h (entities this)). eq x old)"
  using findIndex_none [of "\<lambda>e. eq e old" "get_arr h (entities this)"]
  by (auto simp: InMemory_update_def Let_def)

lemma InMemory_update_replaces:
  assumes v: "valid h (entities this)"
    and f: "fst (InMemory_update this old new eq h)"
  shows "\<exists>i < length (get_arr h (entities this)).
           eq (get_arr h (entities this) ! i) old
         \<and> (\<forall>j < i. \<not> eq (get_arr h (entities this) ! j) old)
         \<and> get_arr (snd (InMemory_update this old new eq h)) (entities this)
             = (get_arr h (entities this))[i := new]"
proof -
  let ?xs = "get_arr h (entities this)"
  let ?k = "findIndex (\<lambda>e. eq e old) ?xs"
  have ne: "?k \<noteq> - 1" using f by (auto simp: InMemory_update_def Let_def split: if_splits)
  note fi = findIndex_found [OF ne]
  have "get_arr (snd (InMemory_update this old new eq h)) (entities this) = ?xs[nat ?k := new]"
    using v by (simp add: InMemory_update_found [of h this eq old new, OF v ne])
  with fi show ?thesis by blast
qed

lemma InMemory_update_not_found:
  assumes "\<not> fst (InMemory_update this old new eq h)"
  shows "snd (InMemory_update this old new eq h) = h"
  using assms by (auto simp: InMemory_update_def Let_def split: if_splits)

lemma TypeOrm_update_saved:
  assumes "save repo (spread old new) r = (Inr u, r1)"
  shows "TypeOrm_update repo old new eq r = (Inr True, r1)"
  using assms by (simp add: TypeOrm_update_def)

lemma TypeOrm_update_no_match:
  assumes "save repo (spread old new) r = (Inl e, r1)"
    and "TypeOrmRepositoryLike.find repo None r1 = (Inr all, r2)"
    and "\<forall>x \<in> set all. \<not> eq x old"
  shows "TypeOrm_update repo old new eq r = (Inr False, r2)"
  using assms find_no_match [of all "\<lambda>x. eq x old"] by (simp add: TypeOrm_update_def)

lemma TypeOrm_update_match:
  assumes "save repo (spread old new) r = (Inl e, r1)"
    and "TypeOrmRepositoryLike.find repo None r1 = (Inr all, r2)"
    and "i < length all" "eq (all ! i) old" "\<forall>j < i. \<not> eq (all ! j) old"
    and "save repo (spread (all ! i) new) r2 = (Inr u, r3)"
  shows "TypeOrm_update repo old new eq r = (Inr True, r3)"
proof -
  have "List.find (\<lambda>x. eq x old) all = Some (all ! i)"
    using assms(3-5) by (intro find_first_match)
  with assms(1,2,6) show ?thesis by (simp add: TypeOrm_update_def)
qed

lemma findEntitiesPage_fallback_past_end:
  assumes np: "findPage (strategy m) = None"
    and fe: "findEntities m (Some options) s h = (Inr f, s1, h1)"
    and ne: "get_arr h1 f \<noteq> []"
    and past: "totalPages (fst (paginate f (case page options of Some p \<Rightarrow> p | None \<Rightarrow> 1)
                 (case pageSize options of Some n \<Rightarrow> n | None \<Rightarrow> 10) h1))
               < (case page options of Some p \<Rightarrow> p | None \<Rightarrow> 1)"
  shows "\<exists>res h2. findEntitiesPage m options s h = (Inr res, s1, h2)
           \<and> PageResult.page res = totalPages res
           \<and> get_arr h2 (items res)
               = drop (nat ((totalPages res - 1) * PageResult.pageSize res)) (get_arr h1 f)
           \<and> get_arr h2 (items res) \<noteq> []
           \<and> \<not> hasNext res"
proof -
  let ?p = "case page options of Some p \<Rightarrow> p | None \<Rightarrow> 1"
  let ?ps = "case pageSize options of Some n \<Rightarrow> n | None \<Rightarrow> 10"
  let ?P = "paginate f ?p ?ps h1"
  have fb: "findEntitiesPage m options s h = (Inr (fst ?P), s1, snd ?P)"
    by (simp add: findEntitiesPage_def np fe split_beta)
  have sz: "PageResult.pageSize (fst ?P) = max 1 ?ps" by (rule paginate_fields(2))
  note e = paginate_past_end [OF ne past]
  show ?thesis
  proof (intro exI conjI)
    show "findEntitiesPage m options s h = (Inr (fst ?P), s1, snd ?P)" by (rule fb)
    show "PageResult.page (fst ?P) = totalPages (fst ?P)" by (rule e(1))
    show "get_arr (snd ?P) (items (fst ?P))
            = drop (nat ((totalPages (fst ?P) - 1) * PageResult.pageSize (fst ?P))) (get_arr h1 f)"
      unfolding sz by (rule e(2))
    show "get_arr (snd ?P) (items (fst ?P)) \<noteq> []" by (rule e(3))
    show "\<not> hasNext (fst ?P)" by (rule e(5))
  qed
qed

lemma TypeOrm_findPage_list_repository:
  "TypeOrm_findPage list_repository
     (QueryOptions.extend fifth_page (TypeOrmQueryOptions.fields None None None None))
     three_entities []
   = (Inr \<lparr> items = 1, page = 2, pageSize = 2, totalItems = 3, totalPages = 2,
              hasNext = False, hasPrev = True \<rparr>, three_entities, [[], []])"
  by (simp add: TypeOrm_findPage_def list_repository_def fifth_page_def three_entities_def
      QueryOptions.extend_def QueryOptions.truncate_def TypeOrmQueryOptions.fields_def
      alloc_def applyFunctionalFilters_unfold passes_def get_arr_def ceil_quotient_div)

section \<open>The paginator\<close>

text \<open>
  C2. For an array of the store and any integers \<open>page\<close> and \<open>pageSize\<close>, \<open>paginate\<close>
  returns a result (it has no failing branch) whose \<open>pageSize\<close> is the requested one
  raised to at least 1, whose \<open>totalItems\<close> is the length of the array, whose
  \<open>totalPages\<close> is the larger of 1 and the ceiling of \<open>totalItems / pageSize\<close>, whose
  \<open>page\<close> is the requested page raised to at least 1 and lowered to at most
  \<open>totalPages\<close>, and whose \<open>items\<close> are the elements of the input at the positions from
  \<open>(page - 1) * pageSize\<close> up to, and excluding, \<open>page * pageSize\<close>: at most \<open>pageSize\<close>
  of them, and exactly \<open>pageSize\<close> on every page before the last. \<open>hasNext\<close> says that
  the page is before the last one, \<open>hasPrev\<close> that it is after the first. The input
  array is left as it was.
\<close>

theorem paginate_page_result:
  assumes "valid h r"
  shows "let xs = get_arr h r;
             res = fst (paginate r p ps h);
             h1 = snd (paginate r p ps h);
             size = max 1 ps;
             pages = max 1 \<lceil>real (length xs) / real_of_int size\<rceil>;
             eff = min (max 1 p) pages;
             out = get_arr h1 (items res)
         in PageResult.pageSize res = size \<and> 1 \<le> PageResult.pageSize res
          \<and> totalItems res = int (length xs)
          \<and> totalPages res = pages
          \<and> PageResult.page res = eff
          \<and> out = take (nat size) (drop (nat ((eff - 1) * size)) xs)
          \<and> int (length out) \<le> size
          \<and> (eff < pages \<longrightarrow> int (length out) = size)
          \<and> hasNext res = (eff < pages)
          \<and> hasPrev res = (1 < eff)
          \<and> get_arr h1 r = xs"
proof -
  let ?xs = "get_arr h r"
  let ?s = "max 1 ps"
  let ?n = "int (length ?xs)"
  let ?pages = "max 1 (ceil_quotient ?n ?s)"
  let ?eff = "min (max 1 p) ?pages"
  let ?out = "take (nat ?s) (drop (nat ((?eff - 1) * ?s)) ?xs)"
  have c: "\<lceil>real (length ?xs) / real_of_int ?s\<rceil> = ceil_quotient ?n ?s"
    by (simp add: ceil_quotient_def)
  have len: "int (length ?out) \<le> ?s" by (rule window_length_le) simp
  have full: "int (length ?out) = ?s" if "?eff < ?pages"
  proof -
    have "?eff * ?s < ?n"
    proof (rule full_page_before_last)
      show "1 \<le> ?s" by simp
      show "1 \<le> ?eff" by simp
      show "?eff < ?pages" by (rule that)
    qed
    then have "(?eff - 1) * ?s + ?s \<le> ?n" by (simp add: algebra_simps)
    moreover have "0 \<le> (?eff - 1) * ?s"
    proof (rule mult_nonneg_nonneg)
      have "1 \<le> ?eff" by simp
      then show "0 \<le> ?eff - 1" by linarith
      have "1 \<le> ?s" by simp
      then show "0 \<le> ?s" by linarith
    qed
    moreover have "1 \<le> ?s" by simp
    ultimately show ?thesis by (intro window_length_full)
  qed
  have pu: "paginate r p ps h =
      (\<lparr> items = length h, page = ?eff, pageSize = ?s, totalItems = ?n,
         totalPages = ?pages, hasNext = ?eff < ?pages, hasPrev = 1 < ?eff \<rparr>,
       h @ [?out])"
    by (simp only: paginate_unfold Let_def)
  have out: "get_arr (snd (paginate r p ps h)) (items (fst (paginate r p ps h))) = ?out"
    by (simp add: pu)
  have old: "get_arr (snd (paginate r p ps h)) r = ?xs"
    using assms by (simp add: pu)
  have flds: "PageResult.pageSize (fst (paginate r p ps h)) = ?s"
    "totalItems (fst (paginate r p ps h)) = ?n"
    "totalPages (fst (paginate r p ps h)) = ?pages"
    "PageResult.page (fst (paginate r p ps h)) = ?eff"
    "hasNext (fst (paginate r p ps h)) = (?eff < ?pages)"
    "hasPrev (fst (paginate r p ps h)) = (1 < ?eff)"
    by (simp_all add: pu)
  have s1: "1 \<le> ?s" by simp
  show ?thesis
    unfolding Let_def c out old flds
    using len full s1 by blast
qed

theorem paginate_page_result_witness:
  "valid [[1, 2, 3, 4, 5, 6, 7, 8, 9, 10, 11, 12 :: nat]] 0 \<and>
   (let res = fst (paginate 0 2 5 [[1, 2, 3, 4, 5, 6, 7, 8, 9, 10, 11, 12 :: nat]]);
        h1 = snd (paginate 0 2 5 [[1, 2, 3, 4, 5, 6, 7, 8, 9, 10, 11, 12 :: nat]])
    in PageResult.page res < totalPages res \<and> totalPages res = 3 \<and> 
       get_arr h1 (items res) = [6, 7, 8, 9, 10] \<and> hasNext res \<and> hasPrev res)"
  using paginate_page_result [of "[[1, 2, 3, 4, 5, 6, 7, 8, 9, 10, 11, 12 :: nat]]" 0 2 5]
  by (simp add: valid_def Let_def get_arr_def)

text \<open>
  C6. A request for a page after the last one is to return the last page's items, with
  \<open>page\<close> equal to \<open>totalPages\<close>. Through a manager over the TypeORM strategy, on a
  repository of three entities, the request for page 5 of size 2 returns \<open>page = 2\<close>,
  which is \<open>totalPages\<close>, and no items: the strategy's \<open>findPage\<close> lowers the page
  that it reports to \<open>totalPages\<close> and has taken \<open>skip\<close> from the page as requested.
  The in-memory backend with the same three entities returns, for the same request,
  the one entity of the second and last page.
\<close>

theorem TypeOrm_findPage_past_the_end:
  "findEntitiesPage \<lparr> strategy = TypeOrm_strategy list_repository, equalsFn = Object_is \<rparr>
      fifth_page three_entities []
     = (Inr \<lparr> items = 1, page = 2, pageSize = 2, totalItems = 3, totalPages = 2,
                hasNext = False, hasPrev = True \<rparr>, three_entities, [[], []])
   \<and> get_arr [[], [] :: nat entity option list] 1 = []
   \<and> InMemory_findPage \<lparr> entities = 0 \<rparr> fifth_page [three_entities]
     = (\<lparr> items = 2, page = 2, pageSize = 2, totalItems = 3, totalPages = 2,
           hasNext = False, hasPrev = True \<rparr>,
        [three_entities, three_entities, [Some unkeyed_entity]])
   \<and> get_arr [three_entities, three_entities, [Some unkeyed_entity]] 2 = [Some unkeyed_entity]"
proof -
  have a: "findEntitiesPage \<lparr> strategy = TypeOrm_strategy list_repository, equalsFn = Object_is \<rparr>
      fifth_page three_entities []
     = (Inr \<lparr> items = 1, page = 2, pageSize = 2, totalItems = 3, totalPages = 2,
                hasNext = False, hasPrev = True \<rparr>, three_entities, [[], []])"
    by (simp add: findEntitiesPage_def TypeOrm_strategy_def TypeOrm_findPage_list_repository)
  have f: "applyFunctionalFilters 0 (Some fifth_page) [three_entities]
             = (Suc 0, [three_entities, three_entities])"
    by (simp add: applyFunctionalFilters_unfold passes_def get_arr_def fifth_page_def)
  have p: "paginate (Suc 0) 5 2 [three_entities, three_entities]
             = (\<lparr> items = 2, page = 2, pageSize = 2, totalItems = 3, totalPages = 2,
                   hasNext = False, hasPrev = True \<rparr>,
                [three_entities, three_entities, [Some unkeyed_entity]])"
    by (simp add: paginate_unfold get_arr_def ceil_quotient_div three_entities_def)
  have b: "InMemory_findPage \<lparr> entities = 0 \<rparr> fifth_page [three_entities]
     = (\<lparr> items = 2, page = 2, pageSize = 2, totalItems = 3, totalPages = 2,
           hasNext = False, hasPrev = True \<rparr>,
        [three_entities, three_entities, [Some unkeyed_entity]])"
    by (simp add: InMemory_findPage_def f) (simp add: fifth_page_def p)
  show ?thesis using a b by (simp add: get_arr_def)
qed

section \<open>The query filter engine\<close>

text \<open>
  C3, as the claim has it, fails on a sequence that holds \<open>undefined\<close>: under a
  comparator that makes any two elements equal, a stable sort leaves the filtered
  sequence as it is, and \<open>applyFunctionalFilters\<close> returns it with \<open>undefined\<close> moved
  to the end.
\<close>

theorem stable_sort_counterexample:
  "consistent_comparator all_equal
   \<and> sortBy tie_options = Some all_equal
   \<and> predicate tie_options = None
   \<and> filters tie_options = None
   \<and> all_equal None (Some 3) = 0
   \<and> applyFunctionalFilters 0 (Some tie_options) [[None, Some 3, Some 2]]
       = (2, [[None, Some 3, Some 2], [None, Some 3, Some 2], [Some 3, Some 2, None]])
   \<and> [Some 3, Some 2, None] \<noteq> [None, Some 3, Some (2 :: nat)]"
  by (simp add: consistent_comparator_def all_equal_def tie_options_def
      applyFunctionalFilters_unfold passes_def get_arr_def array_sort_def)

text \<open>
  C3, amended. \<open>applyFunctionalFilters\<close> changes no array that existed, the input among
  them, and returns a new one. Without \<open>sortBy\<close> the result holds exactly the entities
  that pass (the main predicate, taken as true when absent, and every entry of the
  filters list), in the input's order. With \<open>sortBy\<close> the result holds the same
  entities, each as often, the ones that are not \<open>undefined\<close> first and every
  \<open>undefined\<close> one after them; and when the comparator is that of a total order on the
  values, these first ones are in the comparator's order and the sort is stable: for
  every value, the values that compare equal to it are in the order the filtered
  sequence had them in.
\<close>

theorem applyFunctionalFilters_filters_and_sorts:
  assumes v: "valid h r"
  shows "let xs = get_arr h r;
             out = fst (applyFunctionalFilters r options h);
             h1 = snd (applyFunctionalFilters r options h);
             ys = get_arr h1 out;
             kept = filter (passes options) xs;
             sortBy' = (case options of None \<Rightarrow> None | Some opts \<Rightarrow> sortBy opts)
         in take (length h) h1 = h
          \<and> get_arr h1 r = xs
          \<and> \<not> valid h out
          \<and> valid h1 out
          \<and> (sortBy' = None \<longrightarrow> ys = kept)
          \<and> (\<forall>cmp. sortBy' = Some cmp \<longrightarrow>
                 mset ys = mset kept
               \<and> ys = filter (\<lambda>e. e \<noteq> None) ys @ filter (\<lambda>e. e = None) kept
               \<and> (consistent_comparator (\<lambda>a b. cmp (Some a) (Some b)) \<longrightarrow>
                     sorted_wrt (\<lambda>a b. cmp a b \<le> 0) (filter (\<lambda>e. e \<noteq> None) ys)
                   \<and> (\<forall>k. filter (\<lambda>e. e \<noteq> None \<and> cmp (Some k) e = 0) ys
                            = filter (\<lambda>e. e \<noteq> None \<and> cmp (Some k) e = 0) kept)))"
proof (cases "case options of None \<Rightarrow> None | Some opts \<Rightarrow> sortBy opts")
  case None
  have a: "applyFunctionalFilters r options h
             = (length h, h @ [filter (passes options) (get_arr h r)])"
    by (simp add: applyFunctionalFilters_unfold None)
  show ?thesis
    unfolding Let_def a fst_conv snd_conv None
    using v by (simp add: valid_def)
next
  case (Some c)
  let ?f = "filter (passes options) (get_arr h r)"
  have a: "applyFunctionalFilters r options h
             = (Suc (length h), h @ [?f, array_sort c ?f])"
    by (simp add: applyFunctionalFilters_unfold Some)
  have out: "get_arr (h @ [?f, array_sort c ?f]) (Suc (length h)) = array_sort c ?f"
    by (simp add: get_arr_def nth_append)
  have inp: "get_arr (h @ [?f, array_sort c ?f]) r = get_arr h r"
    using v by (simp add: get_arr_def valid_def nth_append)
  have frame: "take (length h) (h @ [?f, array_sort c ?f]) = h"
    "\<not> valid h (Suc (length h))" "valid (h @ [?f, array_sort c ?f]) (Suc (length h))"
    by (simp_all add: valid_def)
  show ?thesis
    unfolding Let_def a fst_conv snd_conv Some out inp
    using frame mset_array_sort [of c ?f] array_sort_values_first [of c ?f]
      array_sort_sorted [of c ?f] array_sort_stable [of c _ ?f]
    by (simp del: mset_filter)
qed

theorem applyFunctionalFilters_filters_and_sorts_witness:
  "valid [[Some 5, None, Some 7, Some 3, Some 4, Some 9, Some (6 :: nat)]] 0
   \<and> consistent_comparator
        (\<lambda>a b. (\<lambda>a b. int (the a mod 3) - int (the b mod 3)) (Some a) (Some (b :: nat)))
   \<and> applyFunctionalFilters 0
        (Some \<lparr> page = None, pageSize = None, predicate = Some (\<lambda>e. e \<noteq> Some 9),
                filters = Some [\<lambda>e. e \<noteq> Some 8],
                sortBy = Some (\<lambda>a b. int (the a mod 3) - int (the b mod 3)) \<rparr>)
        [[Some 5, None, Some 7, Some 3, Some 4, Some 9, Some (6 :: nat)]]
       = (2, [[Some 5, None, Some 7, Some 3, Some 4, Some 9, Some 6],
              [Some 5, None, Some 7, Some 3, Some 4, Some 6],
              [Some 3, Some 6, Some 7, Some 4, Some 5, None]])
   \<and> sorted_wrt (\<lambda>a b. int (the a mod 3) - int (the b mod 3) \<le> 0)
        [Some 3, Some 6, Some 7, Some 4, Some (5 :: nat)]
   \<and> applyFunctionalFilters 0
        (Some \<lparr> page = None, pageSize = None, predicate = Some (\<lambda>e. e \<noteq> Some 9),
                filters = Some [\<lambda>e. e \<noteq> Some 8], sortBy = None \<rparr>)
        [[Some 5, None, Some 7, Some 3, Some 4, Some 9, Some (6 :: nat)]]
       = (1, [[Some 5, None, Some 7, Some 3, Some 4, Some 9, Some 6],
              [Some 5, None, Some 7, Some 3, Some 4, Some 6]])"
proof -
  let ?h = "[[Some 5, None, Some 7, Some 3, Some 4, Some 9, Some (6 :: nat)]]"
  let ?cmp = "\<lambda>a b :: nat option. int (the a mod 3) - int (the b mod 3)"
  let ?sorted = "Some \<lparr> page = None, pageSize = None,
                predicate = Some (\<lambda>e :: nat option. e \<noteq> Some 9),
                filters = Some [\<lambda>e. e \<noteq> Some 8], sortBy = Some ?cmp \<rparr>"
  let ?plain = "Some \<lparr> page = None, pageSize = None,
                predicate = Some (\<lambda>e :: nat option. e \<noteq> Some 9),
                filters = Some [\<lambda>e. e \<noteq> Some 8], sortBy = None \<rparr>"
  have v: "valid ?h 0" by (simp add: valid_def)
  have c: "consistent_comparator (\<lambda>a b. ?cmp (Some a) (Some b))"
    unfolding consistent_comparator_def by auto
  have a: "applyFunctionalFilters 0 ?sorted ?h
             = (2, [[Some 5, None, Some 7, Some 3, Some 4, Some 9, Some 6],
                    [Some 5, None, Some 7, Some 3, Some 4, Some 6],
                    [Some 3, Some 6, Some 7, Some 4, Some 5, None]])"
    by (simp add: applyFunctionalFilters_unfold passes_def get_arr_def array_sort_def)
  have b: "applyFunctionalFilters 0 ?plain ?h
             = (1, [[Some 5, None, Some 7, Some 3, Some 4, Some 9, Some 6],
                    [Some 5, None, Some 7, Some 3, Some 4, Some 6]])"
    by (simp add: applyFunctionalFilters_unfold passes_def get_arr_def)
  have s: "sorted_wrt (\<lambda>a b. ?cmp a b \<le> 0) [Some 3, Some 6, Some 7, Some 4, Some (5 :: nat)]"
    using applyFunctionalFilters_filters_and_sorts [OF v, of ?sorted] c
    unfolding Let_def a by (simp add: get_arr_def)
  from v c a s b show ?thesis by blast
qed

section \<open>The manager's fallback\<close>

text \<open>
  C1. Take a manager over a strategy with no native \<open>findPage\<close>, and an in-memory
  backend. Let the strategy have no native \<open>find\<close> and a \<open>getAll\<close> that returns the
  entities the backend holds, in the same order; or let it have a native \<open>find\<close> that
  returns, for these options, the entities the backend's \<open>find\<close> returns. Then
  \<open>findEntitiesPage\<close> returns a page, and its items, \<open>totalItems\<close> and \<open>totalPages\<close>,
  and also \<open>page\<close>, \<open>pageSize\<close>, \<open>hasNext\<close> and \<open>hasPrev\<close>, are those of the backend's
  \<open>findPage\<close> for the same options.
\<close>

theorem fallback_page_matches_native:
  assumes np: "findPage (strategy m) = None"
    and src: "case EntityManagementStrategy.find (strategy m) of
                None \<Rightarrow>
                  getAll (strategy m) s h = (Inr all, s1, h1)
                  \<and> get_arr h1 all = get_arr h0 (entities mem)
              | Some native \<Rightarrow>
                  native (Some options) s h = (Inr all, s1, h1)
                  \<and> get_arr h1 all
                      = get_arr (snd (InMemory_find mem (Some options) h0))
                          (fst (InMemory_find mem (Some options) h0))"
    and va: "valid h1 all"
    and vm: "valid h0 (entities mem)"
  shows "\<exists>res h2. findEntitiesPage m options s h = (Inr res, s1, h2)
           \<and> get_arr h2 (items res)
               = get_arr (snd (InMemory_findPage mem options h0))
                   (items (fst (InMemory_findPage mem options h0)))
           \<and> totalItems res = totalItems (fst (InMemory_findPage mem options h0))
           \<and> totalPages res = totalPages (fst (InMemory_findPage mem options h0))
           \<and> PageResult.page res = PageResult.page (fst (InMemory_findPage mem options h0))
           \<and> PageResult.pageSize res = PageResult.pageSize (fst (InMemory_findPage mem options h0))
           \<and> hasNext res = hasNext (fst (InMemory_findPage mem options h0))
           \<and> hasPrev res = hasPrev (fst (InMemory_findPage mem options h0))"
proof -
  let ?p = "case page options of Some p \<Rightarrow> p | None \<Rightarrow> 1"
  let ?ps = "case pageSize options of Some n \<Rightarrow> n | None \<Rightarrow> 10"
  let ?B = "InMemory_find mem (Some options) h0"
  have "\<exists>f hf. findEntities m (Some options) s h = (Inr f, s1, hf)
           \<and> get_arr hf f = get_arr (snd ?B) (fst ?B)"
  proof (cases "EntityManagementStrategy.find (strategy m)")
    case None
    let ?A = "applyFunctionalFilters all (Some options) h1"
    from src None have ga: "getAll (strategy m) s h = (Inr all, s1, h1)"
      and same: "get_arr h1 all = get_arr h0 (entities mem)" by simp_all
    have "findEntities m (Some options) s h = (Inr (fst ?A), s1, snd ?A)"
      by (simp add: findEntities_def None ga split_beta)
    moreover have "get_arr (snd ?A) (fst ?A) = get_arr (snd ?B) (fst ?B)"
      unfolding InMemory_find_def applyFunctionalFilters_contents same ..
    ultimately show ?thesis by blast
  next
    case (Some native)
    from src Some have "native (Some options) s h = (Inr all, s1, h1)"
      and "get_arr h1 all = get_arr (snd ?B) (fst ?B)" by simp_all
    then show ?thesis by (simp add: findEntities_def Some)
  qed
  then obtain f hf where fe: "findEntities m (Some options) s h = (Inr f, s1, hf)"
    and c: "get_arr hf f = get_arr (snd ?B) (fst ?B)" by blast
  let ?PA = "paginate f ?p ?ps hf"
  let ?PB = "paginate (fst ?B) ?p ?ps (snd ?B)"
  have fb: "findEntitiesPage m options s h = (Inr (fst ?PA), s1, snd ?PA)"
    by (simp add: findEntitiesPage_def np fe split_beta)
  have nat: "InMemory_findPage mem options h0 = ?PB"
    by (rule InMemory_findPage_unfold)
  have i: "get_arr (snd ?PA) (items (fst ?PA)) = get_arr (snd ?PB) (items (fst ?PB))"
    unfolding paginate_contents c ..
  have f: "totalItems (fst ?PA) = totalItems (fst ?PB)"
    "totalPages (fst ?PA) = totalPages (fst ?PB)"
    "PageResult.page (fst ?PA) = PageResult.page (fst ?PB)"
    "PageResult.pageSize (fst ?PA) = PageResult.pageSize (fst ?PB)"
    "hasNext (fst ?PA) = hasNext (fst ?PB)"
    "hasPrev (fst ?PA) = hasPrev (fst ?PB)"
    unfolding paginate_fields c by (rule refl)+
  show ?thesis
    unfolding fb nat using i f by blast
qed

theorem fallback_page_matches_native_witness:
  "findPage (strategy \<lparr> strategy = list_strategy :: (nat option, nat option list) EntityManagementStrategy,
                         equalsFn = Object_is \<rparr>) = None
   \<and> EntityManagementStrategy.find
        (strategy \<lparr> strategy = list_strategy :: (nat option, nat option list) EntityManagementStrategy,
                    equalsFn = Object_is \<rparr>) = None
   \<and> getAll (strategy \<lparr> strategy = list_strategy, equalsFn = Object_is \<rparr>) [Some 5, Some 4, Some 7, Some 3, Some (2 :: nat)] []
        = (Inr 0, [Some 5, Some 4, Some 7, Some 3, Some 2], [[Some 5, Some 4, Some 7, Some 3, Some 2]])
   \<and> valid [[Some 5, Some 4, Some 7, Some 3, Some (2 :: nat)]] 0
   \<and> valid [[Some 5, Some 4, Some 7, Some 3, Some (2 :: nat)]] (entities \<lparr> entities = 0 \<rparr>)
   \<and> get_arr [[Some 5, Some 4, Some 7, Some 3, Some (2 :: nat)]] 0 = get_arr [[Some 5, Some 4, Some 7, Some 3, Some 2]] (entities \<lparr> entities = 0 \<rparr>)
   \<and> findEntitiesPage \<lparr> strategy = list_strategy, equalsFn = Object_is \<rparr>
        \<lparr> page = Some 2, pageSize = Some 2, predicate = Some (\<lambda>e. e \<noteq> Some 2),
          filters = None, sortBy = None \<rparr> [Some 5, Some 4, Some 7, Some 3, Some (2 :: nat)] []
       = (Inr \<lparr> items = 2, page = 2, pageSize = 2, totalItems = 4, totalPages = 2,
                hasNext = False, hasPrev = True \<rparr>,
          [Some 5, Some 4, Some 7, Some 3, Some 2], [[Some 5, Some 4, Some 7, Some 3, Some 2], [Some 5, Some 4, Some 7, Some 3], [Some 7, Some 3]])
   \<and> findEntitiesPage \<lparr> strategy = filtering_strategy, equalsFn = Object_is \<rparr>
        \<lparr> page = Some 2, pageSize = Some 2, predicate = Some (\<lambda>e. e \<noteq> Some 2),
          filters = None, sortBy = None \<rparr> [Some 5, Some 4, Some 7, Some 3, Some (2 :: nat)] []
       = (Inr \<lparr> items = 1, page = 2, pageSize = 2, totalItems = 4, totalPages = 2,
                hasNext = False, hasPrev = True \<rparr>,
          [Some 5, Some 4, Some 7, Some 3, Some 2], [[Some 5, Some 4, Some 7, Some 3], [Some 7, Some 3]])
   \<and> InMemory_findPage \<lparr> entities = 0 \<rparr>
        \<lparr> page = Some 2, pageSize = Some 2, predicate = Some (\<lambda>e. e \<noteq> Some 2),
          filters = None, sortBy = None \<rparr> [[Some 5, Some 4, Some 7, Some 3, Some (2 :: nat)]]
       = (\<lparr> items = 2, page = 2, pageSize = 2, totalItems = 4, totalPages = 2,
             hasNext = False, hasPrev = True \<rparr>, [[Some 5, Some 4, Some 7, Some 3, Some 2], [Some 5, Some 4, Some 7, Some 3], [Some 7, Some 3]])
   \<and> (\<exists>res h2.
         findEntitiesPage \<lparr> strategy = list_strategy, equalsFn = Object_is \<rparr>
           \<lparr> page = Some 2, pageSize = Some 2, predicate = Some (\<lambda>e. e \<noteq> Some 2),
             filters = None, sortBy = None \<rparr> [Some 5, Some 4, Some 7, Some 3, Some (2 :: nat)] []
          = (Inr res, [Some 5, Some 4, Some 7, Some 3, Some 2], h2)
       \<and> totalPages res
          = totalPages (fst (InMemory_findPage \<lparr> entities = 0 \<rparr>
              \<lparr> page = Some 2, pageSize = Some 2, predicate = Some (\<lambda>e. e \<noteq> Some 2),
                filters = None, sortBy = None \<rparr> [[Some 5, Some 4, Some 7, Some 3, Some (2 :: nat)]])))
   \<and> (\<exists>res h2.
         findEntitiesPage \<lparr> strategy = filtering_strategy, equalsFn = Object_is \<rparr>
           \<lparr> page = Some 2, pageSize = Some 2, predicate = Some (\<lambda>e. e \<noteq> Some 2),
             filters = None, sortBy = None \<rparr> [Some 5, Some 4, Some 7, Some 3, Some (2 :: nat)] []
          = (Inr res, [Some 5, Some 4, Some 7, Some 3, Some 2], h2)
       \<and> get_arr h2 (items res)
          = get_arr (snd (InMemory_findPage \<lparr> entities = 0 \<rparr>
              \<lparr> page = Some 2, pageSize = Some 2, predicate = Some (\<lambda>e. e \<noteq> Some 2),
                filters = None, sortBy = None \<rparr> [[Some 5, Some 4, Some 7, Some 3, Some (2 :: nat)]]))
             (items (fst (InMemory_findPage \<lparr> entities = 0 \<rparr>
              \<lparr> page = Some 2, pageSize = Some 2, predicate = Some (\<lambda>e. e \<noteq> Some 2),
                filters = None, sortBy = None \<rparr> [[Some 5, Some 4, Some 7, Some 3, Some (2 :: nat)]]))))"
proof -
  let ?m = "\<lparr> strategy = list_strategy :: (nat option, nat option list) EntityManagementStrategy,
              equalsFn = Object_is \<rparr>"
  let ?n = "\<lparr> strategy = filtering_strategy :: (nat option, nat option list) EntityManagementStrategy,
              equalsFn = Object_is \<rparr>"
  let ?s = "[Some 5, Some 4, Some 7, Some 3, Some (2 :: nat)]"
  let ?o = "\<lparr> page = Some 2, pageSize = Some 2, predicate = Some (\<lambda>e :: nat option. e \<noteq> Some 2),
             filters = None, sortBy = None \<rparr>"
  let ?mem = "\<lparr> entities = 0 \<rparr>"
  have np: "findPage (strategy ?m) = None" by (simp add: list_strategy_def)
  have np': "findPage (strategy ?n) = None" by (simp add: filtering_strategy_def)
  have nf: "EntityManagementStrategy.find (strategy ?m) = None" by (simp add: list_strategy_def)
  have ga: "getAll (strategy ?m) ?s [] = (Inr 0, ?s, [?s])" by (simp add: list_strategy_def)
  have va: "valid [?s] 0" by (simp add: valid_def)
  have va': "valid [[Some 5, Some 4, Some 7, Some (3 :: nat)]] 0" by (simp add: valid_def)
  have vm: "valid [?s] (entities ?mem)" by (simp add: valid_def)
  have same: "get_arr [?s] 0 = get_arr [?s] (entities ?mem)" by simp
  have f: "applyFunctionalFilters 0 (Some ?o) [?s] = (Suc 0, [[Some 5, Some 4, Some 7, Some 3, Some 2], [Some 5, Some 4, Some 7, Some 3]])"
    by (simp add: applyFunctionalFilters_unfold passes_def get_arr_def)
  have pg: "paginate (Suc 0) 2 2 [[Some 5, Some 4, Some 7, Some 3, Some (2 :: nat)], [Some 5, Some 4, Some 7, Some 3]]
       = (\<lparr> items = 2, page = 2, pageSize = 2, totalItems = 4, totalPages = 2,
             hasNext = False, hasPrev = True \<rparr>, [[Some 5, Some 4, Some 7, Some 3, Some 2], [Some 5, Some 4, Some 7, Some 3], [Some 7, Some 3]])"
    by (simp add: paginate_unfold get_arr_def ceil_quotient_div)
  have pg': "paginate 0 2 2 [[Some 5, Some 4, Some 7, Some (3 :: nat)]]
       = (\<lparr> items = 1, page = 2, pageSize = 2, totalItems = 4, totalPages = 2,
             hasNext = False, hasPrev = True \<rparr>, [[Some 5, Some 4, Some 7, Some 3], [Some 7, Some 3]])"
    by (simp add: paginate_unfold get_arr_def ceil_quotient_div)
  have fb: "findEntitiesPage ?m ?o ?s []
       = (Inr \<lparr> items = 2, page = 2, pageSize = 2, totalItems = 4, totalPages = 2,
                hasNext = False, hasPrev = True \<rparr>,
          ?s, [[Some 5, Some 4, Some 7, Some 3, Some 2], [Some 5, Some 4, Some 7, Some 3], [Some 7, Some 3]])"
    by (simp add: findEntitiesPage_def findEntities_def list_strategy_def f pg)
  have fb': "findEntitiesPage ?n ?o ?s []
       = (Inr \<lparr> items = 1, page = 2, pageSize = 2, totalItems = 4, totalPages = 2,
                hasNext = False, hasPrev = True \<rparr>,
          ?s, [[Some 5, Some 4, Some 7, Some 3], [Some 7, Some 3]])"
    by (simp add: findEntitiesPage_def findEntities_def filtering_strategy_def passes_def pg')
  have nt: "InMemory_findPage ?mem ?o [?s]
       = (\<lparr> items = 2, page = 2, pageSize = 2, totalItems = 4, totalPages = 2,
             hasNext = False, hasPrev = True \<rparr>, [[Some 5, Some 4, Some 7, Some 3, Some 2], [Some 5, Some 4, Some 7, Some 3], [Some 7, Some 3]])"
    by (simp add: InMemory_findPage_def f pg)
  have src: "case EntityManagementStrategy.find (strategy ?m) of
                None \<Rightarrow> getAll (strategy ?m) ?s [] = (Inr 0, ?s, [?s])
                  \<and> get_arr [?s] 0 = get_arr [?s] (entities ?mem)
              | Some native \<Rightarrow> native (Some ?o) ?s [] = (Inr 0, ?s, [?s])
                  \<and> get_arr [?s] 0
                      = get_arr (snd (InMemory_find ?mem (Some ?o) [?s]))
                          (fst (InMemory_find ?mem (Some ?o) [?s]))"
    using nf ga same by simp
  have src': "case EntityManagementStrategy.find (strategy ?n) of
                None \<Rightarrow> getAll (strategy ?n) ?s [] = (Inr 0, ?s, [[Some 5, Some 4, Some 7, Some 3]])
                  \<and> get_arr [[Some 5, Some 4, Some 7, Some 3]] 0 = get_arr [?s] (entities ?mem)
              | Some native \<Rightarrow> native (Some ?o) ?s [] = (Inr 0, ?s, [[Some 5, Some 4, Some 7, Some 3]])
                  \<and> get_arr [[Some 5, Some 4, Some 7, Some 3]] 0
                      = get_arr (snd (InMemory_find ?mem (Some ?o) [?s]))
                          (fst (InMemory_find ?mem (Some ?o) [?s]))"
    by (simp add: filtering_strategy_def passes_def InMemory_find_def f get_arr_def)
  have a: "\<exists>res h2. findEntitiesPage ?m ?o ?s [] = (Inr res, ?s, h2)
          \<and> totalPages res = totalPages (fst (InMemory_findPage ?mem ?o [?s]))"
    using fallback_page_matches_native [OF np src va vm] by blast
  have b: "\<exists>res h2. findEntitiesPage ?n ?o ?s [] = (Inr res, ?s, h2)
          \<and> get_arr h2 (items res)
              = get_arr (snd (InMemory_findPage ?mem ?o [?s])) (items (fst (InMemory_findPage ?mem ?o [?s])))"
    using fallback_page_matches_native [OF np' src' va' vm] by blast
  from np nf ga va vm same fb fb' nt a b show ?thesis by blast
qed

section \<open>The in-memory backend\<close>

text \<open>
  C5. Start from a new in-memory backend and apply any finite sequence of \<open>add\<close>,
  \<open>remove\<close> and \<open>update\<close> operations. Then \<open>count\<close> is the number of live
  entities: the sum, over the operations, of 1 for each \<open>add\<close>, of -1 for each
  \<open>remove\<close> that returned true and of 0 for every other operation; it is the length of
  what \<open>getAll\<close> returns; and one further operation changes it by exactly that
  operation's share.
\<close>

theorem count_tracks_live_entities:
  "let this = fst (InMemory_new h);
       h0 = snd (InMemory_new h);
       log = fst (run_operations this eq ops h0);
       h1 = snd (run_operations this eq ops h0);
       res = fst (apply_operation this eq x h1);
       h2 = snd (apply_operation this eq x h1)
   in map fst log = ops
    \<and> InMemory_count this h0 = 0
    \<and> InMemory_count this h1 = sum_list (map net_change log)
    \<and> InMemory_count this h1
        = int (length (get_arr (snd (InMemory_getAll this h1)) (fst (InMemory_getAll this h1))))
    \<and> InMemory_count this h2 = InMemory_count this h1 + net_change (x, res)"
proof -
  let ?s = "fst (InMemory_new h)"
  let ?h0 = "snd (InMemory_new h)"
  have v0: "valid ?h0 (entities ?s)"
    by (simp add: InMemory_new_def alloc_def valid_def)
  have c0: "InMemory_count ?s ?h0 = 0"
    by (simp add: InMemory_new_def alloc_def InMemory_count_def)
  note r = run_operations_count [OF v0, of eq ops]
  have v1: "valid (snd (run_operations ?s eq ops ?h0)) (entities ?s)" using r by simp
  note st = apply_operation_count(2) [OF v1, of eq x]
  have ga: "get_arr (snd (InMemory_getAll ?s h')) (fst (InMemory_getAll ?s h'))
              = get_arr h' (entities ?s)" for h' :: "'a store"
    by (simp add: InMemory_getAll_def alloc_def)
  show ?thesis
    unfolding Let_def ga
    using r c0 st by (simp add: InMemory_count_def)
qed

theorem count_tracks_live_entities_witness:
  "InMemory_new ([] :: nat store) = (\<lparr> entities = 0 \<rparr>, [[]])
   \<and> run_operations \<lparr> entities = 0 \<rparr> Object_is
        [Add 4, Add 2, Remove 5, Update 4 7, Remove 2] [[] :: nat list]
       = ([(Add 4, None), (Add 2, None), (Remove 5, Some False), (Update 4 7, Some True),
           (Remove 2, Some True)], [[7]])
   \<and> InMemory_count \<lparr> entities = 0 \<rparr> [[7 :: nat]] = 1
   \<and> apply_operation \<lparr> entities = 0 \<rparr> Object_is (Remove 7) [[7 :: nat]] = (Some True, [[]])
   \<and> InMemory_count \<lparr> entities = 0 \<rparr> ([[]] :: nat store) = 1 + net_change (Remove (7 :: nat), Some True)"
proof -
  let ?s = "\<lparr> entities = 0 \<rparr>"
  let ?ops = "[Add 4, Add 2, Remove 5, Update 4 7, Remove (2 :: nat)]"
  have n: "InMemory_new ([] :: nat store) = (?s, [[]])"
    by (simp add: InMemory_new_def alloc_def)
  have r: "run_operations ?s Object_is ?ops [[]]
       = ([(Add 4, None), (Add 2, None), (Remove 5, Some False), (Update 4 7, Some True),
           (Remove 2, Some True)], [[7]])"
    by (simp add: InMemory_add_def InMemory_remove_def InMemory_update_def Object_is_def
        get_arr_def set_arr_def array_splice_def relative_index_def Let_def)
  have a: "apply_operation ?s Object_is (Remove 7) [[7 :: nat]] = (Some True, [[]])"
    by (simp add: InMemory_remove_def Object_is_def get_arr_def set_arr_def array_splice_def
        relative_index_def Let_def)
  have c: "InMemory_count ?s [[7 :: nat]] = 1"
    using count_tracks_live_entities [of "[] :: nat store" Object_is ?ops "Remove 7"]
    unfolding n Let_def fst_conv snd_conv r by simp
  have d: "InMemory_count ?s ([[]] :: nat store) = 1 + net_change (Remove (7 :: nat), Some True)"
    using count_tracks_live_entities [of "[] :: nat store" Object_is ?ops "Remove 7"]
    unfolding n Let_def fst_conv snd_conv r a c by simp
  from n r c a d show ?thesis by blast
qed

text \<open>
  C7. When no stored entity equals the given one under the equality policy, \<open>remove\<close>
  returns false and the store, so also the collection with its order, is what it was;
  the same holds for \<open>update\<close> when \<open>oldEntity\<close> has no match.
\<close>

theorem no_match_leaves_collection:
  assumes "valid h (entities this)"
    and "\<forall>e \<in> set (get_arr h (entities this)). \<not> eq e entity"
  shows "fst (InMemory_remove this entity eq h) = False
       \<and> snd (InMemory_remove this entity eq h) = h
       \<and> get_arr (snd (InMemory_remove this entity eq h)) (entities this) = get_arr h (entities this)
       \<and> fst (InMemory_update this entity newEntity eq h) = False
       \<and> snd (InMemory_update this entity newEntity eq h) = h
       \<and> get_arr (snd (InMemory_update this entity newEntity eq h)) (entities this)
           = get_arr h (entities this)"
  using assms(2) by (simp add: InMemory_remove_none InMemory_update_none)

theorem no_match_leaves_collection_witness:
  "valid [[1, 2, 3 :: nat]] (entities \<lparr> entities = 0 \<rparr>)
   \<and> 7 \<notin> set (get_arr [[1, 2, 3 :: nat]] (entities \<lparr> entities = 0 \<rparr>))
   \<and> InMemory_remove \<lparr> entities = 0 \<rparr> 7 Object_is [[1, 2, 3 :: nat]] = (False, [[1, 2, 3]])
   \<and> InMemory_update \<lparr> entities = 0 \<rparr> 7 9 Object_is [[1, 2, 3 :: nat]] = (False, [[1, 2, 3]])"
  using no_match_leaves_collection [of "[[1, 2, 3 :: nat]]" "\<lparr> entities = 0 \<rparr>" Object_is 7 9]
  by (simp add: valid_def get_arr_def Object_is_def prod_eq_iff)

text \<open>
  C9. \<open>getAll\<close> returns a new array, one that did not exist before and is not the
  backend's own, with the stored entities in order. Whatever is then written into the
  returned array, the backend's collection, the result of \<open>count\<close> and the contents
  of what the next \<open>getAll\<close> returns are unchanged.
\<close>

theorem getAll_independent_copy:
  assumes v: "valid h (entities this)"
  shows "let xs = get_arr h (entities this);
             r = fst (InMemory_getAll this h);
             h1 = snd (InMemory_getAll this h)
         in get_arr h1 r = xs
          \<and> r \<noteq> entities this
          \<and> \<not> valid h r
          \<and> valid h1 r
          \<and> get_arr h1 (entities this) = xs
          \<and> (\<forall>ys. get_arr (set_arr r ys h1) (entities this) = xs
                  \<and> InMemory_count this (set_arr r ys h1) = InMemory_count this h
                  \<and> get_arr (snd (InMemory_getAll this (set_arr r ys h1)))
                             (fst (InMemory_getAll this (set_arr r ys h1))) = xs)"
proof -
  let ?xs = "get_arr h (entities this)"
  have g: "InMemory_getAll this h = (length h, h @ [?xs])"
    by (simp add: InMemory_getAll_def alloc_def)
  have ne: "length h \<noteq> entities this" using v by (auto simp: valid_def)
  have ne': "entities this \<noteq> length h" using ne by simp
  have keep: "get_arr (set_arr (length h) ys (h @ [?xs])) (entities this) = ?xs" for ys
    using v ne' by simp
  have again: "get_arr (snd (InMemory_getAll this h2)) (fst (InMemory_getAll this h2))
                 = get_arr h2 (entities this)" for h2 :: "'a store"
    by (simp add: InMemory_getAll_def alloc_def)
  show ?thesis
    unfolding Let_def g fst_conv snd_conv again InMemory_count_def keep
    using v ne by (simp add: valid_def)
qed

theorem getAll_independent_copy_witness:
  "valid [[1, 2, 3 :: nat]] (entities \<lparr> entities = 0 \<rparr>)
   \<and> InMemory_getAll \<lparr> entities = 0 \<rparr> [[1, 2, 3 :: nat]] = (1, [[1, 2, 3], [1, 2, 3]])
   \<and> InMemory_getAll \<lparr> entities = 0 \<rparr> (set_arr 1 [8] [[1, 2, 3 :: nat], [1, 2, 3]])
        = (2, [[1, 2, 3], [8], [1, 2, 3]])
   \<and> InMemory_count \<lparr> entities = 0 \<rparr> (set_arr 1 [8] [[1, 2, 3 :: nat], [1, 2, 3]]) = 3"
  using getAll_independent_copy [of "[[1, 2, 3 :: nat]]" "\<lparr> entities = 0 \<rparr>"]
  by (simp add: valid_def InMemory_getAll_def InMemory_count_def alloc_def get_arr_def set_arr_def)

text \<open>
  C10. When \<open>update\<close> returns true, there is a position \<open>i\<close> of the collection, the
  first whose entity equals \<open>oldEntity\<close> under the equality policy, such that the
  collection afterwards is the collection before with \<open>newEntity\<close> at position \<open>i\<close>:
  the length and every other position are unchanged, and so is every other array.
\<close>

theorem update_in_place:
  assumes v: "valid h (entities this)"
    and u: "InMemory_update this old new eq h = (True, h')"
  shows "\<exists>i. i < length (get_arr h (entities this))
           \<and> eq (get_arr h (entities this) ! i) old
           \<and> (\<forall>j < i. \<not> eq (get_arr h (entities this) ! j) old)
           \<and> get_arr h' (entities this) = (get_arr h (entities this))[i := new]
           \<and> get_arr h' (entities this) ! i = new
           \<and> length (get_arr h' (entities this)) = length (get_arr h (entities this))
           \<and> (\<forall>j < length (get_arr h (entities this)).
                 j \<noteq> i \<longrightarrow> get_arr h' (entities this) ! j = get_arr h (entities this) ! j)
           \<and> (\<forall>r. r \<noteq> entities this \<longrightarrow> get_arr h' r = get_arr h r)
           \<and> length h' = length h"
proof -
  let ?xs = "get_arr h (entities this)"
  let ?k = "findIndex (\<lambda>e. eq e old) ?xs"
  have ne: "?k \<noteq> - 1"
    using u by (auto simp: InMemory_update_def Let_def split: if_splits)
  note f = findIndex_found [OF ne]
  have h': "h' = set_arr (entities this) (?xs[nat ?k := new]) h"
    using u InMemory_update_found [of h this eq old new, OF v ne] by simp
  have arr: "get_arr h' (entities this) = ?xs[nat ?k := new]"
    using v by (simp add: h')
  have len: "length h' = length h" by (simp add: h' set_arr_def)
  have other: "\<forall>r. r \<noteq> entities this \<longrightarrow> get_arr h' r = get_arr h r"
    by (simp add: h')
  show ?thesis
  proof (intro exI [of _ "nat ?k"] conjI)
    show "nat ?k < length ?xs" using f by simp
    show "eq (?xs ! nat ?k) old" using f by simp
    show "\<forall>j < nat ?k. \<not> eq (?xs ! j) old" using f by simp
    show "get_arr h' (entities this) = ?xs[nat ?k := new]" by (rule arr)
    show "get_arr h' (entities this) ! nat ?k = new" using f by (simp add: arr)
    show "length (get_arr h' (entities this)) = length ?xs" by (simp add: arr)
    show "\<forall>j < length ?xs. j \<noteq> nat ?k \<longrightarrow> get_arr h' (entities this) ! j = ?xs ! j"
      by (simp add: arr)
    show "\<forall>r. r \<noteq> entities this \<longrightarrow> get_arr h' r = get_arr h r" by (rule other)
    show "length h' = length h" by (rule len)
  qed
qed

theorem update_in_place_witness:
  "valid [[1, 2, 3, 2 :: nat]] (entities \<lparr> entities = 0 \<rparr>)
   \<and> InMemory_update \<lparr> entities = 0 \<rparr> 2 9 Object_is [[1, 2, 3, 2 :: nat]] = (True, [[1, 9, 3, 2]])
   \<and> (\<exists>i. get_arr [[1, 9, 3, 2 :: nat]] (entities \<lparr> entities = 0 \<rparr>) = [1, 2, 3, 2][i := 9])"
proof -
  have v: "valid [[1, 2, 3, 2 :: nat]] (entities \<lparr> entities = 0 \<rparr>)"
    by (simp add: valid_def)
  have u: "InMemory_update \<lparr> entities = 0 \<rparr> 2 9 Object_is [[1, 2, 3, 2 :: nat]] = (True, [[1, 9, 3, 2]])"
    by (simp add: InMemory_update_def Object_is_def get_arr_def set_arr_def Let_def)
  from update_in_place [OF v u] have
    "\<exists>i. get_arr [[1, 9, 3, 2 :: nat]] (entities \<lparr> entities = 0 \<rparr>) = (get_arr [[1, 2, 3, 2]] (entities \<lparr> entities = 0 \<rparr>))[i := 9]"
    by blast
  then have "\<exists>i. get_arr [[1, 9, 3, 2 :: nat]] (entities \<lparr> entities = 0 \<rparr>) = [1, 2, 3, 2][i := 9]"
    by (simp add: get_arr_def)
  with v u show ?thesis by blast
qed

section \<open>The repository strategy and update across the strategies\<close>



text \<open>
  C4, as the claim has it, fails for the TypeORM strategy: on an empty repository, where
  nothing can match \<open>oldEntity\<close>, its \<open>update\<close> returns true, and what it stores is the
  merge of the two entities, which has a field that \<open>newEntity\<close> lacks.
\<close>

theorem update_wholesale_counterexample:
  "TypeOrm_update list_repository old_entity new_entity Object_is []
     = (Inr True, [spread old_entity new_entity])
   \<and> spread old_entity new_entity ''name'' = Some 5
   \<and> new_entity ''name'' = None"
  by (simp add: TypeOrm_update_def list_repository_def spread_def old_entity_def new_entity_def)

text \<open>
  C4, amended. The in-memory strategy's \<open>update\<close> returns true exactly when a stored
  entity equals \<open>oldEntity\<close> under the equality policy; it then puts \<open>newEntity\<close>
  itself at the position of the first such entity, and otherwise leaves the store as it
  was. The TypeORM strategy saves the merge \<open>{ ...oldEntity, ...newEntity }\<close> (every
  field of \<open>newEntity\<close>, and the fields of \<open>oldEntity\<close> that it lacks) and returns true
  when that save succeeds, without a look at the equality policy; when the save faults
  and the scan returns the stored entities, it returns false if none equals \<open>oldEntity\<close>,
  and otherwise saves the merge of the first match with \<open>newEntity\<close> and, that save
  done, returns true. The SQL strategy returns what its adapter's \<open>update\<close> returns.
\<close>

theorem update_by_strategy:
  "(valid h (entities this) \<longrightarrow>
      (let xs = get_arr h (entities this);
           found = fst (InMemory_update this old new eq h);
           h' = snd (InMemory_update this old new eq h)
       in found = (\<exists>x \<in> set xs. eq x old)
        \<and> (found \<longrightarrow>
              (\<exists>i < length xs. eq (xs ! i) old \<and> (\<forall>j < i. \<not> eq (xs ! j) old)
                 \<and> get_arr h' (entities this) = xs[i := new]))
        \<and> (\<not> found \<longrightarrow> h' = h)))
   \<and> (\<forall>u r1. save repo (spread old' new') r = (Inr u, r1) \<longrightarrow>
          TypeOrm_update repo old' new' eq' r = (Inr True, r1))
   \<and> (\<forall>e r1 all r2.
          save repo (spread old' new') r = (Inl e, r1)
          \<and> TypeOrmRepositoryLike.find repo None r1 = (Inr all, r2) \<longrightarrow>
            ((\<forall>x \<in> set all. \<not> eq' x old') \<longrightarrow>
               TypeOrm_update repo old' new' eq' r = (Inr False, r2))
          \<and> (\<forall>i u r3. i < length all \<and> eq' (all ! i) old' \<and> (\<forall>j < i. \<not> eq' (all ! j) old')
                 \<and> save repo (spread (all ! i) new') r2 = (Inr u, r3) \<longrightarrow>
               TypeOrm_update repo old' new' eq' r = (Inr True, r3)))
   \<and> (\<forall>k. spread old' new' k = (case new' k of Some v \<Rightarrow> Some v | None \<Rightarrow> old' k))
   \<and> Sql_update adapter old'' new'' eq'' r' = update adapter old'' new'' eq'' r'"
proof (intro conjI)
  show "valid h (entities this) \<longrightarrow>
      (let xs = get_arr h (entities this);
           found = fst (InMemory_update this old new eq h);
           h' = snd (InMemory_update this old new eq h)
       in found = (\<exists>x \<in> set xs. eq x old)
        \<and> (found \<longrightarrow>
              (\<exists>i < length xs. eq (xs ! i) old \<and> (\<forall>j < i. \<not> eq (xs ! j) old)
                 \<and> get_arr h' (entities this) = xs[i := new]))
        \<and> (\<not> found \<longrightarrow> h' = h))"
    unfolding Let_def
    using InMemory_update_found_iff [of this old new eq h]
      InMemory_update_replaces [of h this old new eq]
      InMemory_update_not_found [of this old new eq h]
    by blast
  show "\<forall>u r1. save repo (spread old' new') r = (Inr u, r1) \<longrightarrow>
          TypeOrm_update repo old' new' eq' r = (Inr True, r1)"
    by (intro allI impI) (erule TypeOrm_update_saved)
  show "\<forall>e r1 all r2.
          save repo (spread old' new') r = (Inl e, r1)
          \<and> TypeOrmRepositoryLike.find repo None r1 = (Inr all, r2) \<longrightarrow>
            ((\<forall>x \<in> set all. \<not> eq' x old') \<longrightarrow>
               TypeOrm_update repo old' new' eq' r = (Inr False, r2))
          \<and> (\<forall>i u r3. i < length all \<and> eq' (all ! i) old' \<and> (\<forall>j < i. \<not> eq' (all ! j) old')
                 \<and> save repo (spread (all ! i) new') r2 = (Inr u, r3) \<longrightarrow>
               TypeOrm_update repo old' new' eq' r = (Inr True, r3))"
  proof (intro allI impI conjI)
    fix e r1 all r2
    assume a: "save repo (spread old' new') r = (Inl e, r1)
          \<and> TypeOrmRepositoryLike.find repo None r1 = (Inr all, r2)"
    assume "\<forall>x \<in> set all. \<not> eq' x old'"
    with a show "TypeOrm_update repo old' new' eq' r = (Inr False, r2)"
      using TypeOrm_update_no_match [of repo old' new' r e r1 all r2 eq'] by blast
  next
    fix e r1 all r2 i u r3
    assume a: "save repo (spread old' new') r = (Inl e, r1)
          \<and> TypeOrmRepositoryLike.find repo None r1 = (Inr all, r2)"
    assume b: "i < length all \<and> eq' (all ! i) old' \<and> (\<forall>j < i. \<not> eq' (all ! j) old')
                 \<and> save repo (spread (all ! i) new') r2 = (Inr u, r3)"
    from a b show "TypeOrm_update repo old' new' eq' r = (Inr True, r3)"
      using TypeOrm_update_match [of repo old' new' r e r1 all r2 i eq' u r3] by blast
  qed
  show "\<forall>k. spread old' new' k = (case new' k of Some v \<Rightarrow> Some v | None \<Rightarrow> old' k)"
    by (simp add: spread_def map_add_def split: option.splits)
  show "Sql_update adapter old'' new'' eq'' r' = update adapter old'' new'' eq'' r'"
    by (simp add: Sql_update_def)
qed

theorem update_by_strategy_witness:
  "valid [[4, 2, 3, 2 :: nat]] (entities \<lparr> entities = 0 \<rparr>)
   \<and> fst (InMemory_update \<lparr> entities = 0 \<rparr> 2 9 Object_is [[4, 2, 3, 2 :: nat]])
   \<and> (\<exists>i. get_arr (snd (InMemory_update \<lparr> entities = 0 \<rparr> 2 9 Object_is [[4, 2, 3, 2 :: nat]]))
              (entities \<lparr> entities = 0 \<rparr>) = [4, 2, 3, 2][i := 9])
   \<and> InMemory_update \<lparr> entities = 0 \<rparr> 7 9 Object_is [[4, 2, 3, 2 :: nat]] = (False, [[4, 2, 3, 2]])
   \<and> save list_repository (spread old_entity new_entity) []
        = (Inr (), [spread old_entity new_entity])
   \<and> TypeOrm_update list_repository old_entity new_entity Object_is []
        = (Inr True, [spread old_entity new_entity])
   \<and> save checked_repository (spread unkeyed_entity renamed_entity) [old_entity]
        = (Inl (Fault ''NotNullViolation''), [old_entity])
   \<and> TypeOrmRepositoryLike.find checked_repository None [old_entity] = (Inr [old_entity], [old_entity])
   \<and> TypeOrm_update checked_repository unkeyed_entity renamed_entity
        (\<lambda>a b. a ''name'' = b ''name'') [old_entity]
        = (Inr True, [old_entity, spread old_entity renamed_entity])
   \<and> TypeOrm_update checked_repository unkeyed_entity renamed_entity
        (\<lambda>a b. a ''name'' = b ''name'') []
        = (Inr False, [])"
proof -
  let ?h = "[[4, 2, 3, 2 :: nat]]"
  let ?mem = "\<lparr> entities = 0 \<rparr>"
  let ?eq = "\<lambda>a b :: nat entity. a ''name'' = b ''name''"
  have v: "valid ?h (entities ?mem)" by (simp add: valid_def)
  have x: "\<exists>x \<in> set (get_arr ?h (entities ?mem)). Object_is x 2"
    by (simp add: get_arr_def Object_is_def)
  have nx: "\<not> (\<exists>x \<in> set (get_arr ?h (entities ?mem)). Object_is x 7)"
    by (simp add: get_arr_def Object_is_def)
  note mem_hit = update_by_strategy [of ?h ?mem 2 9 Object_is, THEN conjunct1, rule_format, OF v, unfolded Let_def]
  note mem_miss = update_by_strategy [of ?h ?mem 7 9 Object_is, THEN conjunct1, rule_format, OF v, unfolded Let_def]
  have f: "fst (InMemory_update ?mem 2 9 Object_is ?h)" using mem_hit x by blast
  have "\<exists>i. get_arr (snd (InMemory_update ?mem 2 9 Object_is ?h)) (entities ?mem)
              = (get_arr ?h (entities ?mem))[i := 9]"
    using mem_hit f by blast
  then have w: "\<exists>i. get_arr (snd (InMemory_update ?mem 2 9 Object_is ?h)) (entities ?mem)
              = [4, 2, 3, 2][i := 9]"
    by (simp add: get_arr_def)
  have nf: "\<not> fst (InMemory_update ?mem 7 9 Object_is ?h)" using mem_miss nx by blast
  then have "snd (InMemory_update ?mem 7 9 Object_is ?h) = ?h" using mem_miss by blast
  with nf have miss: "InMemory_update ?mem 7 9 Object_is ?h = (False, ?h)"
    by (simp add: prod_eq_iff)
  have s1: "save list_repository (spread old_entity new_entity) []
              = (Inr (), [spread old_entity new_entity])"
    by (simp add: list_repository_def)
  have t1: "TypeOrm_update list_repository old_entity new_entity Object_is []
              = (Inr True, [spread old_entity new_entity])"
    by (rule update_by_strategy [THEN conjunct2, THEN conjunct1, rule_format, OF s1])
  have s2: "save checked_repository (spread unkeyed_entity renamed_entity) [old_entity]
              = (Inl (Fault ''NotNullViolation''), [old_entity])"
    by (simp add: checked_repository_def spread_def unkeyed_entity_def renamed_entity_def)
  have s2': "save checked_repository (spread unkeyed_entity renamed_entity) []
              = (Inl (Fault ''NotNullViolation''), [])"
    by (simp add: checked_repository_def spread_def unkeyed_entity_def renamed_entity_def)
  have sc: "TypeOrmRepositoryLike.find checked_repository None [old_entity] = (Inr [old_entity], [old_entity])"
    by (simp add: checked_repository_def list_repository_def)
  have sc': "TypeOrmRepositoryLike.find checked_repository None ([] :: nat entity list) = (Inr [], [])"
    by (simp add: checked_repository_def list_repository_def)
  have s3: "save checked_repository (spread ([old_entity] ! 0) renamed_entity) [old_entity]
              = (Inr (), [old_entity, spread old_entity renamed_entity])"
    by (simp add: checked_repository_def spread_def old_entity_def renamed_entity_def)
  have m: "0 < length [old_entity] \<and> ?eq ([old_entity] ! 0) unkeyed_entity
             \<and> (\<forall>j < 0. \<not> ?eq ([old_entity] ! j) unkeyed_entity)"
    by (simp add: old_entity_def unkeyed_entity_def)
  have t2: "TypeOrm_update checked_repository unkeyed_entity renamed_entity ?eq [old_entity]
              = (Inr True, [old_entity, spread old_entity renamed_entity])"
    using update_by_strategy [THEN conjunct2, THEN conjunct2, THEN conjunct1, rule_format,
        OF conjI [OF s2 sc], THEN conjunct2, rule_format, of 0 ?eq] s3 m
    by blast
  have "\<forall>x \<in> set ([] :: nat entity list). \<not> ?eq x unkeyed_entity" by simp
  then have t3: "TypeOrm_update checked_repository unkeyed_entity renamed_entity ?eq []
              = (Inr False, [])"
    using update_by_strategy [THEN conjunct2, THEN conjunct2, THEN conjunct1, rule_format,
        OF conjI [OF s2' sc'], THEN conjunct1, rule_format, of ?eq]
    by blast
  from v f w miss s1 t1 s2 sc t2 t3 show ?thesis by blast
qed

end
